theory Spec2Isabelle
  imports Main "HOL-Library.Multiset" "HOL-Library.List_Lexorder"
begin

section \<open>Python strings\<close>

text \<open>
  A Python \<^verbatim>\<open>str\<close> is a sequence of Unicode code points. It is modelled as the
  list of its code points, so that \<^verbatim>\<open>len\<close> is \<open>length\<close> and the order Python
  uses to sort strings (lexicographic, by code point) is the order of
  \<open>HOL-Library.List_Lexorder\<close> on \<open>nat list\<close>. A literal of the source is written
  \<open>str_of ''...''\<close>.
\<close>

type_synonym pystr = "nat list"

definition str_of :: "string \<Rightarrow> pystr" where
  "str_of s = map of_char s"

text \<open>
  \<^verbatim>\<open>str.isspace\<close> for one code point: the characters CPython's
  \<^verbatim>\<open>_PyUnicode_IsWhitespace\<close> accepts. \<^verbatim>\<open>str.strip()\<close> removes them at both ends.
\<close>

definition is_space :: "nat \<Rightarrow> bool" where
  "is_space c \<longleftrightarrow>
     (9 \<le> c \<and> c \<le> 13) \<or> (28 \<le> c \<and> c \<le> 32) \<or> c = 133 \<or> c = 160 \<or> c = 5760 \<or>
     (8192 \<le> c \<and> c \<le> 8202) \<or> c = 8232 \<or> c = 8233 \<or> c = 8239 \<or> c = 8287 \<or> c = 12288"

definition strip :: "pystr \<Rightarrow> pystr" where
  "strip s = rev (dropWhile is_space (rev (dropWhile is_space s)))"

text \<open>
  \<^verbatim>\<open>str.splitlines()\<close>: the line boundaries are LF, VT, FF, CR, FS, GS, RS, NEL, LS and
  PS; CR LF counts as one boundary; the boundaries are not kept; a text that ends in a
  boundary has no empty last line.
\<close>

definition is_linebreak :: "nat \<Rightarrow> bool" where
  "is_linebreak c \<longleftrightarrow>
     c = 10 \<or> c = 11 \<or> c = 12 \<or> c = 13 \<or> c = 28 \<or> c = 29 \<or> c = 30 \<or> c = 133 \<or>
     c = 8232 \<or> c = 8233"

fun after_break :: "nat \<Rightarrow> pystr \<Rightarrow> pystr" where
  "after_break c (d # ds) = (if c = 13 \<and> d = 10 then ds else d # ds)"
| "after_break c [] = []"

function splitlines_from :: "pystr \<Rightarrow> pystr \<Rightarrow> pystr list" where
  "splitlines_from cur [] = (if cur = [] then [] else [cur])"
| "splitlines_from cur (c # cs) =
     (if is_linebreak c then cur # splitlines_from [] (after_break c cs)
      else splitlines_from (cur @ [c]) cs)"
  by pat_completeness auto
termination
proof (relation "measure (\<lambda>(cur, s). length s)")
  fix cur :: pystr and c :: nat and cs :: pystr
  show "((([]::pystr), after_break c cs), (cur, c # cs)) \<in> measure (\<lambda>(cur, s). length s)"
    by (cases cs) auto
qed auto

definition splitlines :: "pystr \<Rightarrow> pystr list" where
  "splitlines s = splitlines_from [] s"

definition startswith :: "pystr \<Rightarrow> pystr \<Rightarrow> bool" where
  "startswith s p \<longleftrightarrow> take (length p) s = p"

text \<open>
  The other string methods the program and the date parser of the standard library use:
  \<^verbatim>\<open>str.split()\<close> (runs of whitespace separate the words, no empty word),
  \<^verbatim>\<open>str.split(sep)\<close> for a separator of one character, \<^verbatim>\<open>find\<close> and \<^verbatim>\<open>rfind\<close>
  of one character (\<open>None\<close> where Python returns \<open>-1\<close>), \<^verbatim>\<open>lower\<close> and \<^verbatim>\<open>upper\<close>.
\<close>

fun split_ws_from :: "pystr \<Rightarrow> pystr \<Rightarrow> pystr list" where
  "split_ws_from cur [] = (if cur = [] then [] else [cur])"
| "split_ws_from cur (c # cs) =
     (if is_space c then (if cur = [] then split_ws_from [] cs else cur # split_ws_from [] cs)
      else split_ws_from (cur @ [c]) cs)"

definition split_ws :: "pystr \<Rightarrow> pystr list" where
  "split_ws s = split_ws_from [] s"

fun split_on_from :: "nat \<Rightarrow> pystr \<Rightarrow> pystr \<Rightarrow> pystr list" where
  "split_on_from sep cur [] = [cur]"
| "split_on_from sep cur (c # cs) =
     (if c = sep then cur # split_on_from sep [] cs else split_on_from sep (cur @ [c]) cs)"

definition split_on :: "nat \<Rightarrow> pystr \<Rightarrow> pystr list" where
  "split_on sep s = split_on_from sep [] s"

definition str_find :: "nat \<Rightarrow> pystr \<Rightarrow> nat option" where
  "str_find c s = (if c \<in> set s then Some (length (takeWhile (\<lambda>x. x \<noteq> c) s)) else None)"

definition str_rfind :: "nat \<Rightarrow> pystr \<Rightarrow> nat option" where
  "str_rfind c s =
     (if c \<in> set s then Some (length s - 1 - length (takeWhile (\<lambda>x. x \<noteq> c) (rev s)))
      else None)"

definition endswith_char :: "pystr \<Rightarrow> nat \<Rightarrow> bool" where
  "endswith_char s c \<longleftrightarrow> s \<noteq> [] \<and> last s = c"

text \<open>
  \<^verbatim>\<open>lower\<close> and \<^verbatim>\<open>upper\<close> are exact on ASCII and on the code points whose image is
  ASCII (the Kelvin sign for \<^verbatim>\<open>lower\<close>; sharp s, dotless i, long s and the Latin
  ligatures for \<^verbatim>\<open>upper\<close>). Every other code point is left as it is: the results are
  only compared with ASCII names or read as numbers, and no other code point turns into
  an ASCII character or a digit.
\<close>

definition lower_char :: "nat \<Rightarrow> nat" where
  "lower_char c = (if 65 \<le> c \<and> c \<le> 90 then c + 32 else if c = 8490 then 107 else c)"

definition lower :: "pystr \<Rightarrow> pystr" where
  "lower s = map lower_char s"

definition upper_char :: "nat \<Rightarrow> pystr" where
  "upper_char c =
     (if 97 \<le> c \<and> c \<le> 122 then [c - 32]
      else if c = 223 then str_of ''SS''
      else if c = 305 then str_of ''I''
      else if c = 383 then str_of ''S''
      else if c = 64256 then str_of ''FF''
      else if c = 64257 then str_of ''FI''
      else if c = 64258 then str_of ''FL''
      else if c = 64259 then str_of ''FFI''
      else if c = 64260 then str_of ''FFL''
      else if c = 64261 \<or> c = 64262 then str_of ''ST''
      else [c])"

definition upper :: "pystr \<Rightarrow> pystr" where
  "upper s = concat (map upper_char s)"

section \<open>Python integers and their decimal form\<close>

text \<open>\<^verbatim>\<open>str(n)\<close> for an integer: the decimal digits, after a minus sign when negative.\<close>

function str_nat :: "nat \<Rightarrow> pystr" where
  "str_nat n = (if n < 10 then [48 + n] else str_nat (n div 10) @ [48 + n mod 10])"
  by pat_completeness auto
termination
  by (relation "measure (\<lambda>n. n)") auto

declare str_nat.simps [simp del]

definition str_int :: "int \<Rightarrow> pystr" where
  "str_int i = (if i < 0 then 45 # str_nat (nat (- i)) else str_nat (nat i))"

text \<open>
  \<^verbatim>\<open>int(s)\<close> for a string, in base ten. The digits are the decimal digits of Unicode
  (category Nd, Unicode 14.0 as in CPython 3.11): every block of ten starts at one of
  \<open>decimal_zeros\<close>. \<^verbatim>\<open>str.isdigit\<close> also accepts the superscript, subscript and circled
  digits of \<open>other_digits\<close>.
  \<^verbatim>\<open>int\<close> removes whitespace at both ends, reads an optional sign and then digits,
  where single underscores may stand between two digits; it raises \<^verbatim>\<open>ValueError\<close> on
  anything else, and on more than 4300 digits (the default limit of
  \<^verbatim>\<open>sys.set_int_max_str_digits\<close>). The whitespace \<^verbatim>\<open>int\<close> removes is the whitespace of
  the C library in ASCII (tab to carriage return, and the space) and the Unicode
  whitespace beyond ASCII: unlike \<^verbatim>\<open>str.strip\<close>, \<^verbatim>\<open>int\<close> does not accept the separators
  U+001C to U+001F.
\<close>

definition decimal_zeros :: "nat list" where
  "decimal_zeros =
     [48, 1632, 1776, 1984, 2406, 2534, 2662, 2790, 2918, 3046, 3174, 3302, 3430, 3558,
      3664, 3792, 3872, 4160, 4240, 6112, 6160, 6470, 6608, 6784, 6800, 6992, 7088, 7232,
      7248, 42528, 43216, 43264, 43472, 43504, 43600, 44016, 65296, 66720, 68912, 69734,
      69872, 69942, 70096, 70384, 70736, 70864, 71248, 71360, 71472, 71904, 72016, 72784,
      73040, 73120, 92768, 92864, 93008, 120782, 120792, 120802, 120812, 120822, 123200,
      123632, 125264, 130032]"

definition decimal_value :: "nat \<Rightarrow> nat option" where
  "decimal_value c =
     (case find (\<lambda>z. z \<le> c \<and> c < z + 10) decimal_zeros of
        None \<Rightarrow> None
      | Some z \<Rightarrow> Some (c - z))"

definition other_digits :: "(nat \<times> nat) list" where
  "other_digits =
     [(178, 179), (185, 185), (4969, 4977), (6618, 6618), (8304, 8304), (8308, 8313),
      (8320, 8329), (9312, 9320), (9332, 9340), (9352, 9360), (9450, 9450), (9461, 9469),
      (9471, 9471), (10102, 10110), (10112, 10120), (10122, 10130), (68160, 68163),
      (69216, 69224), (69714, 69722), (127232, 127242)]"

definition isdigit :: "nat \<Rightarrow> bool" where
  "isdigit c \<longleftrightarrow>
     decimal_value c \<noteq> None \<or> list_ex (\<lambda>(lo, hi). lo \<le> c \<and> c \<le> hi) other_digits"

datatype pyerror = ValueError | TypeError | OverflowError | OSError | RequestException

fun digits_from :: "bool \<Rightarrow> pystr \<Rightarrow> nat list option" where
  "digits_from prev [] = (if prev then Some [] else None)"
| "digits_from prev (c # cs) =
     (if c = 95 then (if prev then digits_from False cs else None)
      else (case decimal_value c of
              None \<Rightarrow> None
            | Some d \<Rightarrow> map_option (Cons d) (digits_from True cs)))"

definition nat_of_digits :: "nat list \<Rightarrow> nat" where
  "nat_of_digits ds = foldl (\<lambda>a d. 10 * a + d) 0 ds"

definition is_int_space :: "nat \<Rightarrow> bool" where
  "is_int_space c \<longleftrightarrow> is_space c \<and> \<not> (28 \<le> c \<and> c \<le> 31)"

definition py_int :: "pystr \<Rightarrow> pyerror + int" where
  "py_int s =
     (let t = rev (dropWhile is_int_space (rev (dropWhile is_int_space s)));
          neg = (t \<noteq> [] \<and> hd t = 45);
          body = (if t \<noteq> [] \<and> (hd t = 45 \<or> hd t = 43) then tl t else t)
      in case digits_from False body of
           None \<Rightarrow> Inl ValueError
         | Some ds \<Rightarrow>
             if length ds > 4300 then Inl ValueError
             else Inr (if neg then - int (nat_of_digits ds) else int (nat_of_digits ds)))"

section \<open>The calendar of \<^verbatim>\<open>datetime\<close>\<close>

text \<open>
  The proleptic Gregorian calendar, as the \<^verbatim>\<open>datetime\<close> module of the standard library
  computes it: day 1 is 1 January of year 1. Python's \<^verbatim>\<open>//\<close> and \<^verbatim>\<open>%\<close> round to minus
  infinity, as \<open>div\<close> and \<open>mod\<close> on \<open>int\<close> do.
\<close>

definition is_leap :: "int \<Rightarrow> bool" where
  "is_leap y \<longleftrightarrow> y mod 4 = 0 \<and> (y mod 100 \<noteq> 0 \<or> y mod 400 = 0)"

definition days_before_year :: "int \<Rightarrow> int" where
  "days_before_year y0 = (let y = y0 - 1 in y * 365 + y div 4 - y div 100 + y div 400)"

definition DAYS_IN_MONTH :: "int list" where
  "DAYS_IN_MONTH = [-1, 31, 28, 31, 30, 31, 30, 31, 31, 30, 31, 30, 31]"

definition DAYS_BEFORE_MONTH :: "int list" where
  "DAYS_BEFORE_MONTH = [-1, 0, 31, 59, 90, 120, 151, 181, 212, 243, 273, 304, 334]"

definition days_in_month :: "int \<Rightarrow> int \<Rightarrow> int" where
  "days_in_month y m = (if m = 2 \<and> is_leap y then 29 else DAYS_IN_MONTH ! nat m)"

definition days_before_month :: "int \<Rightarrow> int \<Rightarrow> int" where
  "days_before_month y m = DAYS_BEFORE_MONTH ! nat m + (if m > 2 \<and> is_leap y then 1 else 0)"

definition ymd2ord :: "int \<Rightarrow> int \<Rightarrow> int \<Rightarrow> int" where
  "ymd2ord y m d = days_before_year y + days_before_month y m + d"

definition ord2ymd :: "int \<Rightarrow> int \<times> int \<times> int" where
  "ord2ymd n0 =
     (let n = n0 - 1;
          n400 = n div 146097; n = n mod 146097;
          y = n400 * 400 + 1;
          n100 = n div 36524; n = n mod 36524;
          n4 = n div 1461; n = n mod 1461;
          n1 = n div 365; n = n mod 365;
          y = y + n100 * 100 + n4 * 4 + n1
      in if n1 = 4 \<or> n100 = 4 then (y - 1, 12, 31)
         else
           let leapyear = (n1 = 3 \<and> (n4 \<noteq> 24 \<or> n100 = 3));
               m = (n + 50) div 32;
               preceding = DAYS_BEFORE_MONTH ! nat m + (if m > 2 \<and> leapyear then 1 else 0)
           in if preceding > n then
                let m = m - 1;
                    preceding = preceding
                      - (DAYS_IN_MONTH ! nat m + (if m = 2 \<and> leapyear then 1 else 0))
                in (y, m, n - preceding + 1)
              else (y, m, n - preceding + 1))"

text \<open>
  A \<^verbatim>\<open>datetime\<close> object: its civil fields and, when it is aware, the offset of its
  \<^verbatim>\<open>tzinfo\<close> from UTC in seconds. The microsecond is left out: it is zero in every
  value the program builds from an integer or from a parsed date, and the formats of the
  program do not print it.
\<close>

record datetime =
  dt_year :: int
  dt_month :: int
  dt_day :: int
  dt_hour :: int
  dt_minute :: int
  dt_second :: int
  dt_utcoffset :: "int option"

text \<open>\<^verbatim>\<open>time.gmtime\<close>: the civil fields of a number of seconds since the Unix epoch.\<close>

definition gmtime :: "int \<Rightarrow> int \<times> int \<times> int \<times> int \<times> int \<times> int" where
  "gmtime t =
     (let days = t div 86400; secs = t mod 86400;
          (y, m, d) = ord2ymd (days + 719163)
      in (y, m, d, secs div 3600, (secs mod 3600) div 60, secs mod 60))"

text \<open>
  \<^verbatim>\<open>datetime.fromtimestamp(t, UTC)\<close> for an integer \<open>t\<close>, as CPython on 64-bit Linux
  behaves: \<^verbatim>\<open>OverflowError\<close> when \<open>t\<close> does not fit the platform's \<^verbatim>\<open>time_t\<close>,
  \<^verbatim>\<open>OSError\<close> when the C library's \<^verbatim>\<open>gmtime\<close> cannot hold the year in its
  \<^verbatim>\<open>int tm_year\<close>, \<^verbatim>\<open>ValueError\<close> when the year is outside 1..9999.
\<close>

definition fromtimestamp_utc :: "int \<Rightarrow> pyerror + datetime" where
  "fromtimestamp_utc t =
     (if t < - (2 ^ 63) \<or> 2 ^ 63 \<le> t then Inl OverflowError
      else
        let (y, m, d, hh, mm, ss) = gmtime t
        in if y - 1900 < - (2 ^ 31) \<or> 2 ^ 31 \<le> y - 1900 then Inl OSError
           else if y < 1 \<or> 9999 < y then Inl ValueError
           else Inr \<lparr>dt_year = y, dt_month = m, dt_day = d, dt_hour = hh, dt_minute = mm,
                       dt_second = ss, dt_utcoffset = Some 0\<rparr>)"

text \<open>
  The constructor \<^verbatim>\<open>datetime(year, month, day, hour, minute, second, tzinfo=...)\<close>:
  \<^verbatim>\<open>OverflowError\<close> for an argument that does not fit a C \<^verbatim>\<open>int\<close>, \<^verbatim>\<open>ValueError\<close>
  for a field out of range.
\<close>

definition c_int :: "int \<Rightarrow> bool" where
  "c_int i \<longleftrightarrow> - (2 ^ 31) \<le> i \<and> i < 2 ^ 31"

definition new_datetime ::
  "int \<Rightarrow> int \<Rightarrow> int \<Rightarrow> int \<Rightarrow> int \<Rightarrow> int \<Rightarrow> int option \<Rightarrow> pyerror + datetime" where
  "new_datetime y m d hh mm ss tz =
     (if \<not> (c_int y \<and> c_int m \<and> c_int d \<and> c_int hh \<and> c_int mm \<and> c_int ss)
      then Inl OverflowError
      else if y < 1 \<or> 9999 < y \<or> m < 1 \<or> 12 < m \<or> d < 1 \<or> days_in_month y m < d \<or>
              hh < 0 \<or> 23 < hh \<or> mm < 0 \<or> 59 < mm \<or> ss < 0 \<or> 59 < ss
      then Inl ValueError
      else Inr \<lparr>dt_year = y, dt_month = m, dt_day = d, dt_hour = hh, dt_minute = mm,
                  dt_second = ss, dt_utcoffset = tz\<rparr>)"

text \<open>
  \<^verbatim>\<open>timezone(timedelta(seconds=s))\<close>: a \<^verbatim>\<open>timedelta\<close> holds at most 999999999 days
  (\<^verbatim>\<open>OverflowError\<close>), and the offset of a \<^verbatim>\<open>timezone\<close> is strictly between minus and
  plus 24 hours (\<^verbatim>\<open>ValueError\<close>).
\<close>

definition py_timezone :: "int \<Rightarrow> pyerror + int" where
  "py_timezone s =
     (if s div 86400 < - 999999999 \<or> 999999999 < s div 86400 then Inl OverflowError
      else if s \<le> - 86400 \<or> 86400 \<le> s then Inl ValueError
      else Inr s)"

text \<open>
  \<^verbatim>\<open>int(dt.timestamp())\<close>. For an aware value it is the distance from the epoch in
  seconds, minus the offset; the float that \<^verbatim>\<open>timestamp\<close> returns is exact, since the
  value is an integer below \<open>2 ^ 53\<close>. A naive value is read in the local time zone of the
  process, which is taken to be UTC.
\<close>

definition datetime_timestamp :: "datetime \<Rightarrow> int" where
  "datetime_timestamp dt =
     (ymd2ord (dt_year dt) (dt_month dt) (dt_day dt) - 719163) * 86400
       + dt_hour dt * 3600 + dt_minute dt * 60 + dt_second dt
       - (case dt_utcoffset dt of None \<Rightarrow> 0 | Some off \<Rightarrow> off)"

definition weekday :: "datetime \<Rightarrow> int" where
  "weekday dt = (ymd2ord (dt_year dt) (dt_month dt) (dt_day dt) + 6) mod 7"

text \<open>
  \<^verbatim>\<open>strftime\<close>, for the directives the program uses, in the C locale: \<^verbatim>\<open>%a\<close> and
  \<^verbatim>\<open>%b\<close> are the English abbreviations, \<^verbatim>\<open>%d\<close>, \<^verbatim>\<open>%m\<close>, \<^verbatim>\<open>%H\<close>, \<^verbatim>\<open>%M\<close> and \<^verbatim>\<open>%S\<close>
  have two digits, and \<^verbatim>\<open>%Y\<close> is the year as the C library of Linux prints it, without
  padding.
\<close>

definition DAYNAMES :: "pystr list" where
  "DAYNAMES = map str_of [''Mon'', ''Tue'', ''Wed'', ''Thu'', ''Fri'', ''Sat'', ''Sun'']"

definition MONTHNAMES :: "pystr list" where
  "MONTHNAMES = map str_of [''Jan'', ''Feb'', ''Mar'', ''Apr'', ''May'', ''Jun'',
     ''Jul'', ''Aug'', ''Sep'', ''Oct'', ''Nov'', ''Dec'']"

definition pad2 :: "int \<Rightarrow> pystr" where
  "pad2 n = (if 0 \<le> n \<and> n < 10 then 48 # str_int n else str_int n)"

definition directive :: "datetime \<Rightarrow> nat \<Rightarrow> pystr" where
  "directive dt c =
     (if c = of_char CHR ''a'' then DAYNAMES ! nat (weekday dt)
      else if c = of_char CHR ''b'' then MONTHNAMES ! nat (dt_month dt - 1)
      else if c = of_char CHR ''d'' then pad2 (dt_day dt)
      else if c = of_char CHR ''m'' then pad2 (dt_month dt)
      else if c = of_char CHR ''Y'' then str_int (dt_year dt)
      else if c = of_char CHR ''H'' then pad2 (dt_hour dt)
      else if c = of_char CHR ''M'' then pad2 (dt_minute dt)
      else if c = of_char CHR ''S'' then pad2 (dt_second dt)
      else [37, c])"

fun strftime :: "datetime \<Rightarrow> pystr \<Rightarrow> pystr" where
  "strftime dt (c # d # cs) =
     (if c = 37 then directive dt d @ strftime dt cs else c # strftime dt (d # cs))"
| "strftime dt cs = cs"

section \<open>The date parser of \<^verbatim>\<open>email.utils\<close>\<close>

text \<open>
  \<^verbatim>\<open>email._parseaddr._parsedate_tz\<close>, step by step as the standard library has it. The
  result is \<open>None\<close> where the function returns \<^verbatim>\<open>None\<close>; otherwise the year, month,
  day, hour, minute and second and the offset of the zone in seconds (\<open>None\<close> for an unknown
  zone and for \<^verbatim>\<open>-0000\<close>).
\<close>

definition daynames :: "pystr list" where
  "daynames = map str_of [''mon'', ''tue'', ''wed'', ''thu'', ''fri'', ''sat'', ''sun'']"

definition monthnames :: "pystr list" where
  "monthnames = map str_of [''jan'', ''feb'', ''mar'', ''apr'', ''may'', ''jun'', ''jul'',
     ''aug'', ''sep'', ''oct'', ''nov'', ''dec'', ''january'', ''february'', ''march'',
     ''april'', ''may'', ''june'', ''july'', ''august'', ''september'', ''october'',
     ''november'', ''december'']"

definition timezones :: "(pystr \<times> int) list" where
  "timezones = map (\<lambda>(n, v). (str_of n, v))
     [(''UT'', 0), (''UTC'', 0), (''GMT'', 0), (''Z'', 0),
      (''AST'', - 400), (''ADT'', - 300), (''EST'', - 500), (''EDT'', - 400),
      (''CST'', - 600), (''CDT'', - 500), (''MST'', - 700), (''MDT'', - 600),
      (''PST'', - 800), (''PDT'', - 700)]"

definition list_index :: "'a \<Rightarrow> 'a list \<Rightarrow> nat" where
  "list_index x xs = length (takeWhile (\<lambda>y. y \<noteq> x) xs)"

text \<open>The day name in front is skipped, or cut off at the last comma of the first word.\<close>

definition drop_dayname :: "pystr list \<Rightarrow> pystr list" where
  "drop_dayname data =
     (if endswith_char (hd data) 44 \<or> lower (hd data) \<in> set daynames then tl data
      else (case str_rfind 44 (hd data) of
              Some i \<Rightarrow> drop (i + 1) (hd data) # tl data
            | None \<Rightarrow> data))"

text \<open>A date of RFC 850 has day, month and year in one word, with hyphens.\<close>

definition rfc850 :: "pystr list \<Rightarrow> pystr list" where
  "rfc850 data =
     (if length data = 3 then
        (let stuff = split_on 45 (hd data)
         in if length stuff = 3 then stuff @ tl data else data)
      else data)"

text \<open>With four words, the zone is cut off the time at a sign, or is empty.\<close>

definition split_zone :: "pystr list \<Rightarrow> pystr list" where
  "split_zone data =
     (if length data = 4 then
        (let s = data ! 3;
             i = (case str_find 43 s of None \<Rightarrow> str_find 45 s | Some k \<Rightarrow> Some k)
         in case i of
              None \<Rightarrow> data @ [[]]
            | Some k \<Rightarrow> if k > 0 then take 3 data @ [take k s, drop k s] else data @ [[]])
      else data)"

definition time_fields :: "pystr \<Rightarrow> (pystr \<times> pystr \<times> pystr) option" where
  "time_fields tm =
     (let parts = split_on 58 tm
      in if length parts = 2 then Some (parts ! 0, parts ! 1, str_of ''0'')
         else if length parts = 3 then Some (parts ! 0, parts ! 1, parts ! 2)
         else if length parts = 1 \<and> 46 \<in> set (parts ! 0) then
           (let dots = split_on 46 (parts ! 0)
            in if length dots = 2 then Some (dots ! 0, dots ! 1, str_of ''0'')
               else if length dots = 3 then Some (dots ! 0, dots ! 1, dots ! 2)
               else None)
         else None)"

definition zone_offset :: "pystr \<Rightarrow> int option" where
  "zone_offset tz0 =
     (let tz = upper tz0;
          tzoffset =
            (case map_of timezones tz of
               Some v \<Rightarrow> Some v
             | None \<Rightarrow>
                 (case py_int tz of
                    Inl e \<Rightarrow> None
                  | Inr v \<Rightarrow> if v = 0 \<and> startswith tz (str_of ''-'') then None else Some v))
      in case tzoffset of
           None \<Rightarrow> None
         | Some v \<Rightarrow>
             if v = 0 then Some 0
             else if v < 0 then Some (- (((- v) div 100) * 3600 + ((- v) mod 100) * 60))
             else Some ((v div 100) * 3600 + (v mod 100) * 60))"

definition parsedate_fields ::
  "pystr \<Rightarrow> pystr \<Rightarrow> pystr \<Rightarrow> pystr \<Rightarrow> pystr \<Rightarrow>
   (int \<times> int \<times> int \<times> int \<times> int \<times> int \<times> int option) option" where
  "parsedate_fields dd0 mm0 yy0 tm0 tz0 =
     (if dd0 = [] \<or> mm0 = [] \<or> yy0 = [] then None
      else
        let mm1 = lower mm0;
            (dd, mm) = (if mm1 \<in> set monthnames then (dd0, mm1) else (mm1, lower dd0))
        in if mm \<notin> set monthnames then None
           else
             let mi = int (list_index mm monthnames) + 1;
                 mi = (if mi > 12 then mi - 12 else mi);
                 dd = (if endswith_char dd 44 then butlast dd else dd);
                 swap = (case str_find 58 yy0 of None \<Rightarrow> False | Some i \<Rightarrow> i > 0);
                 (yy, tm) = (if swap then (tm0, yy0) else (yy0, tm0));
                 comma = endswith_char yy 44;
                 yy = (if comma then butlast yy else yy)
             in if comma \<and> yy = [] then None
                else
                  let (yy, tz) = (if \<not> isdigit (hd yy) then (tz0, yy) else (yy, tz0));
                      tm = (if endswith_char tm 44 then butlast tm else tm)
                  in case time_fields tm of
                       None \<Rightarrow> None
                     | Some (thh, tmm, tss) \<Rightarrow>
                         (case (py_int yy, py_int dd, py_int thh, py_int tmm, py_int tss) of
                            (Inr y, Inr d, Inr hh, Inr mn, Inr ss) \<Rightarrow>
                              let y = (if y < 100 then (if y > 68 then y + 1900 else y + 2000)
                                       else y)
                              in Some (y, mi, d, hh, mn, ss, zone_offset tz)
                          | _ \<Rightarrow> None))"

definition parsedate_tz ::
  "pystr \<Rightarrow> (int \<times> int \<times> int \<times> int \<times> int \<times> int \<times> int option) option" where
  "parsedate_tz data0 =
     (if data0 = [] then None
      else
        let data = split_ws data0
        in if data = [] then None
           else
             let data = split_zone (rfc850 (drop_dayname data))
             in if length data < 5 then None
                else parsedate_fields (data ! 0) (data ! 1) (data ! 2) (data ! 3) (data ! 4))"

text \<open>
  \<^verbatim>\<open>email.utils.parsedate_to_datetime\<close>: \<^verbatim>\<open>ValueError\<close> where the parser finds no
  date; the zone is built before the constructor of the date is called.
\<close>

definition parsedate_to_datetime :: "pystr \<Rightarrow> pyerror + datetime" where
  "parsedate_to_datetime data =
     (case parsedate_tz data of
        None \<Rightarrow> Inl ValueError
      | Some (y, m, d, hh, mn, ss, tz) \<Rightarrow>
          (case tz of
             None \<Rightarrow> new_datetime y m d hh mn ss None
           | Some s \<Rightarrow>
               (case py_timezone s of
                  Inl e \<Rightarrow> Inl e
                | Inr off \<Rightarrow> new_datetime y m d hh mn ss (Some off))))"

section \<open>The program: dates\<close>

text \<open>
  \<^verbatim>\<open>parse_http_date(http_date_str)\<close>: \<open>None\<close> for a falsy argument and when the parser
  raises \<^verbatim>\<open>TypeError\<close> or \<^verbatim>\<open>ValueError\<close>; every other exception leaves the function.
\<close>

definition parse_http_date :: "pystr option \<Rightarrow> pyerror + int option" where
  "parse_http_date http_date_str =
     (case http_date_str of
        None \<Rightarrow> Inr None
      | Some s \<Rightarrow>
          if s = [] then Inr None
          else (case parsedate_to_datetime s of
                  Inl e \<Rightarrow> if e = TypeError \<or> e = ValueError then Inr None else Inl e
                | Inr dt \<Rightarrow> Inr (Some (datetime_timestamp dt))))"

text \<open>\<^verbatim>\<open>epoch_to_http_date(epoch)\<close>, with the exceptions of \<^verbatim>\<open>fromtimestamp\<close>.\<close>

definition epoch_to_http_date :: "int \<Rightarrow> pyerror + pystr" where
  "epoch_to_http_date epoch =
     (case fromtimestamp_utc epoch of
        Inl e \<Rightarrow> Inl e
      | Inr dt \<Rightarrow> Inr (strftime dt (str_of ''%a, %d %b %Y %H:%M:%S GMT'')))"

section \<open>Records of a blocklist\<close>

text \<open>
  \<^verbatim>\<open>parse_records(content)\<close>: the empty set for a falsy content; otherwise the loop over
  \<^verbatim>\<open>content.splitlines()\<close> that strips each line and adds it to the set when it is not
  empty and does not start with \<^verbatim>\<open>#\<close>.
\<close>

definition parse_records_step :: "pystr \<Rightarrow> pystr set \<Rightarrow> pystr set" where
  "parse_records_step line0 records =
     (let line = strip line0
      in if line \<noteq> [] \<and> \<not> startswith line (str_of ''#'') then insert line records
         else records)"

definition parse_records :: "pystr \<Rightarrow> pystr set" where
  "parse_records content =
     (if content = [] then {} else fold parse_records_step (splitlines content) {})"

text \<open>
  The specification's wording of a record: a trimmed line of the text that is not empty
  and does not start with the comment marker.
\<close>

definition record_lines :: "pystr \<Rightarrow> pystr set" where
  "record_lines text =
     Set.filter (\<lambda>r. r \<noteq> [] \<and> \<not> startswith r (str_of ''#'')) (strip ` set (splitlines text))"

text \<open>One text is a reordering of the lines of another.\<close>

definition reordered :: "pystr \<Rightarrow> pystr \<Rightarrow> bool" where
  "reordered a b \<longleftrightarrow> mset (splitlines a) = mset (splitlines b)"

section \<open>The program: files, network and the main procedure\<close>

text \<open>Configuration constants of the module.\<close>

definition BLOCKLIST_URL :: pystr where
  "BLOCKLIST_URL = str_of ''https://phishing.army/download/phishing_army_blocklist_extended.txt''"

definition LAST_MODIFIED_FILE :: pystr where
  "LAST_MODIFIED_FILE = str_of ''last_modified.txt''"

definition CACHE_FILE :: pystr where
  "CACHE_FILE = str_of ''phishing_army_cache.txt''"

definition OUTPUT_FILE :: pystr where
  "OUTPUT_FILE = str_of ''phishing_army_NEW_last_3_hours.txt''"

text \<open>
  The state a run works on: the text files of the working directory, by name (a file
  that does not exist is \<open>None\<close>), and the trace of what the run has done to the outside:
  the requests it sent, the files it wrote, the commit it attempted. Messages printed to
  the terminal are not part of the state. Opening, reading and writing a file are taken
  to succeed.
\<close>

datatype action = Http_head | Http_get | Write_file pystr pystr | Git_commit

record world =
  files :: "pystr \<Rightarrow> pystr option"
  trace :: "action list"

text \<open>
  What a run receives from outside: the outcome of the \<^verbatim>\<open>HEAD\<close> request (an exception
  of \<^verbatim>\<open>requests.head\<close> or \<^verbatim>\<open>raise_for_status\<close>, or the value of
  \<^verbatim>\<open>response.headers.get('Last-Modified')\<close>), the outcome of the \<^verbatim>\<open>GET\<close> request (an
  exception, or \<^verbatim>\<open>response.text\<close>), and the value of \<^verbatim>\<open>datetime.now(UTC)\<close>.
\<close>

record env =
  head_response :: "pyerror + pystr option"
  get_response :: "pyerror + pystr"
  clock :: datetime

text \<open>
  A file opened with mode \<^verbatim>\<open>'r'\<close> is read with universal newlines: CR LF and CR
  become LF. A file opened with mode \<^verbatim>\<open>'w'\<close> is replaced by the text written.
\<close>

fun universal_newlines :: "pystr \<Rightarrow> pystr" where
  "universal_newlines [] = []"
| "universal_newlines [c] = [if c = 13 then 10 else c]"
| "universal_newlines (c # d # cs) =
     (if c = 13 \<and> d = 10 then 10 # universal_newlines cs
      else if c = 13 then 10 # universal_newlines (d # cs)
      else c # universal_newlines (d # cs))"

definition read_text :: "world \<Rightarrow> pystr \<Rightarrow> pystr option" where
  "read_text w name = map_option universal_newlines (files w name)"

definition write_text :: "pystr \<Rightarrow> pystr \<Rightarrow> world \<Rightarrow> world" where
  "write_text name content w =
     w\<lparr>files := (files w)(name \<mapsto> content), trace := trace w @ [Write_file name content]\<rparr>"

definition log_action :: "action \<Rightarrow> world \<Rightarrow> world" where
  "log_action a w = w\<lparr>trace := trace w @ [a]\<rparr>"

text \<open>
  \<^verbatim>\<open>load_last_modified()\<close>: only \<^verbatim>\<open>ValueError\<close> is caught, raised by \<^verbatim>\<open>int\<close> or by
  \<^verbatim>\<open>epoch_to_http_date\<close>, which is called inside the \<^verbatim>\<open>try\<close>.
\<close>

definition load_last_modified :: "world \<Rightarrow> pyerror + int option" where
  "load_last_modified w =
     (case read_text w LAST_MODIFIED_FILE of
        None \<Rightarrow> Inr None
      | Some content \<Rightarrow>
          (case py_int (strip content) of
             Inl e \<Rightarrow> if e = ValueError then Inr None else Inl e
           | Inr epoch \<Rightarrow>
               (case epoch_to_http_date epoch of
                  Inl e \<Rightarrow> if e = ValueError then Inr None else Inl e
                | Inr http_date \<Rightarrow> Inr (Some epoch))))"

definition save_last_modified :: "int \<Rightarrow> world \<Rightarrow> (pyerror + unit) \<times> world" where
  "save_last_modified epoch w =
     (let w' = write_text LAST_MODIFIED_FILE (str_int epoch) w
      in case epoch_to_http_date epoch of
           Inl e \<Rightarrow> (Inl e, w')
         | Inr http_date \<Rightarrow> (Inr (), w'))"

text \<open>
  \<^verbatim>\<open>check_last_modified()\<close>: an exception of the request is not caught here; a missing
  or empty header and a date that parses to a falsy value give \<open>None\<close>.
\<close>

definition check_last_modified :: "env \<Rightarrow> world \<Rightarrow> (pyerror + int option) \<times> world" where
  "check_last_modified e w =
     (let w' = log_action Http_head w
      in case head_response e of
           Inl err \<Rightarrow> (Inl err, w')
         | Inr last_modified_str \<Rightarrow>
             if last_modified_str = None \<or> last_modified_str = Some [] then (Inr None, w')
             else (case parse_http_date last_modified_str of
                     Inl err \<Rightarrow> (Inl err, w')
                   | Inr last_modified_epoch \<Rightarrow>
                       if last_modified_epoch = None \<or> last_modified_epoch = Some 0
                       then (Inr None, w')
                       else (Inr last_modified_epoch, w')))"

definition download_blocklist :: "env \<Rightarrow> world \<Rightarrow> (pyerror + pystr) \<times> world" where
  "download_blocklist e w = (get_response e, log_action Http_get w)"

definition load_cached_content :: "world \<Rightarrow> pystr option" where
  "load_cached_content w = read_text w CACHE_FILE"

definition save_cached_content :: "pystr \<Rightarrow> world \<Rightarrow> world" where
  "save_cached_content content w = write_text CACHE_FILE content w"

text \<open>
  \<^verbatim>\<open>save_new_records(records, last_modified_epoch)\<close>. The date of the header is computed
  before the file is opened, so an exception of \<^verbatim>\<open>epoch_to_http_date\<close> leaves the file
  as it was. \<open>report_text\<close> is the text the \<^verbatim>\<open>write\<close> calls produce, in their order.
\<close>

definition format_epoch :: "int option \<Rightarrow> pystr" where
  "format_epoch x = (case x of None \<Rightarrow> str_of ''None'' | Some i \<Rightarrow> str_int i)"

definition report_header :: "nat \<Rightarrow> int option \<Rightarrow> pystr \<Rightarrow> pystr \<Rightarrow> pystr list" where
  "report_header n last_modified_epoch timestamp last_modified_http =
     [str_of ''# New records added to Phishing Army Extended Blocklist'',
      str_of ''# Source: '' @ BLOCKLIST_URL,
      str_of ''# Last updated: '' @ timestamp,
      str_of ''# Blocklist Last-Modified: '' @ last_modified_http,
      str_of ''# Blocklist Last-Modified (epoch): '' @ format_epoch last_modified_epoch,
      str_of ''# Total new records: '' @ str_int (int n)]"

definition report_body :: "pystr set \<Rightarrow> pystr" where
  "report_body records =
     (if records \<noteq> {} then concat (map (\<lambda>r. r @ [10]) (sorted_list_of_set records))
      else str_of ''# No new records detected in the last check'' @ [10])"

definition report_text :: "pystr set \<Rightarrow> int option \<Rightarrow> pystr \<Rightarrow> pystr \<Rightarrow> pystr" where
  "report_text records last_modified_epoch timestamp last_modified_http =
     concat (map (\<lambda>l. l @ [10])
       (report_header (card records) last_modified_epoch timestamp last_modified_http))
     @ [10] @ report_body records"

definition save_new_records ::
  "pystr set \<Rightarrow> int option \<Rightarrow> env \<Rightarrow> world \<Rightarrow> (pyerror + unit) \<times> world" where
  "save_new_records records last_modified_epoch e w =
     (let timestamp = strftime (clock e) (str_of ''%Y-%m-%d %H:%M:%S UTC'');
          last_modified_http =
            (case last_modified_epoch of
               None \<Rightarrow> Inr (str_of ''Unknown'')
             | Some epoch \<Rightarrow>
                 if epoch = 0 then Inr (str_of ''Unknown'') else epoch_to_http_date epoch)
      in case last_modified_http of
           Inl err \<Rightarrow> (Inl err, w)
         | Inr http \<Rightarrow>
             (Inr (),
              write_text OUTPUT_FILE (report_text records last_modified_epoch timestamp http) w))"

text \<open>
  \<^verbatim>\<open>commit_changes()\<close> catches every exception and writes none of the three files; the
  attempt is recorded in the trace.
\<close>

definition commit_changes :: "world \<Rightarrow> world" where
  "commit_changes w = log_action Git_commit w"

text \<open>
  \<^verbatim>\<open>main()\<close>. The result names the place where the run ends: the three early
  \<^verbatim>\<open>return\<close>s, the end of the procedure, or the exception that the handler at the top
  prints and raises again. \<open>new_records_of\<close> is the set \<^verbatim>\<open>new_records\<close> of lines 203 to
  218: the difference with the records of the cache, or the empty set when the cached
  content is absent or empty. \<open>fetch_and_diff\<close> is the part of \<^verbatim>\<open>main\<close> from the download
  on.
\<close>

datatype exit = No_timestamp | Unchanged | Download_failed | Completed | Raised pyerror

definition new_records_of :: "pystr \<Rightarrow> world \<Rightarrow> pystr set" where
  "new_records_of current_content w =
     (let current_records = parse_records current_content
      in case load_cached_content w of
           None \<Rightarrow> {}
         | Some previous_content \<Rightarrow>
             if previous_content = [] then {}
             else current_records - parse_records previous_content)"

definition fetch_and_diff :: "env \<Rightarrow> int \<Rightarrow> world \<Rightarrow> exit \<times> world" where
  "fetch_and_diff e current_last_modified_epoch w1 =
     (case download_blocklist e w1 of
        (Inl err, w2) \<Rightarrow> (Raised err, w2)
      | (Inr current_content, w2) \<Rightarrow>
          if current_content = [] then (Download_failed, w2)
          else
            let new_records = new_records_of current_content w2
            in case save_new_records new_records (Some current_last_modified_epoch) e w2 of
                 (Inl err, w3) \<Rightarrow> (Raised err, w3)
               | (Inr u, w3) \<Rightarrow>
                   (case save_last_modified current_last_modified_epoch
                           (save_cached_content current_content w3) of
                      (Inl err, w4) \<Rightarrow> (Raised err, w4)
                    | (Inr u, w4) \<Rightarrow> (Completed, commit_changes w4)))"

definition main :: "env \<Rightarrow> world \<Rightarrow> exit \<times> world" where
  "main e w =
     (case load_last_modified w of
        Inl err \<Rightarrow> (Raised err, w)
      | Inr last_modified_epoch \<Rightarrow>
          (case check_last_modified e w of
             (Inl err, w1) \<Rightarrow> (Raised err, w1)
           | (Inr None, w1) \<Rightarrow> (No_timestamp, w1)
           | (Inr (Some current), w1) \<Rightarrow>
               if current = 0 then (No_timestamp, w1)
               else if last_modified_epoch \<noteq> None \<and> last_modified_epoch \<noteq> Some 0
                       \<and> last_modified_epoch = Some current
               then (case save_new_records {} last_modified_epoch e w1 of
                       (Inl err, w2) \<Rightarrow> (Raised err, w2)
                     | (Inr u, w2) \<Rightarrow> (Unchanged, commit_changes w2))
               else fetch_and_diff e current w1))"

section \<open>Notions used in the statements and proofs\<close>

text \<open>
  A string of ASCII digits and the number it denotes; a string without a line boundary;
  the lines of the report after its header; the time stamp of the report; the state after
  a completed run.
\<close>

definition digit_str :: "pystr \<Rightarrow> bool" where
  "digit_str s \<longleftrightarrow> s \<noteq> [] \<and> (\<forall>c\<in>set s. 48 \<le> c \<and> c \<le> 57)"

definition digit_val :: "pystr \<Rightarrow> nat" where
  "digit_val s = nat_of_digits (map (\<lambda>c. c - 48) s)"

definition no_linebreak :: "pystr \<Rightarrow> bool" where
  "no_linebreak s \<longleftrightarrow> (\<forall>c\<in>set s. \<not> is_linebreak c)"

definition body_lines :: "pystr set \<Rightarrow> pystr list" where
  "body_lines records =
     (if records \<noteq> {} then sorted_list_of_set records
      else [str_of ''# No new records detected in the last check''])"

definition report_stamp :: "env \<Rightarrow> pystr" where
  "report_stamp e = strftime (clock e) (str_of ''%Y-%m-%d %H:%M:%S UTC'')"

definition updated_world :: "env \<Rightarrow> int \<Rightarrow> pystr \<Rightarrow> pystr \<Rightarrow> world \<Rightarrow> world" where
  "updated_world e cur content report w =
     w\<lparr>files := (files w)(OUTPUT_FILE \<mapsto> report, CACHE_FILE \<mapsto> content,
          LAST_MODIFIED_FILE \<mapsto> str_int cur),
       trace := trace w @ [Http_head, Http_get, Write_file OUTPUT_FILE report,
         Write_file CACHE_FILE content, Write_file LAST_MODIFIED_FILE (str_int cur),
         Git_commit]\<rparr>"

text \<open>Concrete inputs for the examples: a clock, a network, a working directory.\<close>

definition example_clock :: datetime where
  "example_clock = \<lparr>dt_year = 2025, dt_month = 1, dt_day = 2, dt_hour = 3, dt_minute = 4,
     dt_second = 5, dt_utcoffset = Some 0\<rparr>"

definition example_env :: "(pyerror + pystr option) \<Rightarrow> (pyerror + pystr) \<Rightarrow> env" where
  "example_env h g = \<lparr>head_response = h, get_response = g, clock = example_clock\<rparr>"

definition example_world :: "(pystr \<times> pystr) list \<Rightarrow> world" where
  "example_world fs = \<lparr>files = map_of fs, trace = []\<rparr>"

definition example_header :: pystr where
  "example_header = str_of ''Wed, 01 Jan 2025 00:00:00 GMT''"

definition example_content :: pystr where
  "example_content = str_of ''a'' @ [10] @ str_of ''b'' @ [10] @ str_of ''# comment'' @ [10]"

section \<open>Properties of the record parser\<close>

text \<open>The defining equations that evaluate the string functions on a literal.\<close>

lemmas str_eval = str_of_def splitlines_def is_linebreak_def is_space_def strip_def
  startswith_def parse_records_def parse_records_step_def Let_def

lemma dropWhile_snoc_keep: "\<not> P x \<Longrightarrow> \<exists>zs. dropWhile P (ys @ [x]) = zs @ [x]"
  by (induction ys) auto

lemma dropWhile_rev_dropWhile:
  "dropWhile P (rev (dropWhile P (rev (dropWhile P s)))) = rev (dropWhile P (rev (dropWhile P s)))"
proof (cases "dropWhile P s")
  case Nil
  show ?thesis unfolding Nil by simp
next
  case (Cons x xs)
  then have nx: "\<not> P x" using hd_dropWhile [of P s] by (metis list.sel(1) list.distinct(1))
  from dropWhile_snoc_keep [of P x "rev xs"] nx
  obtain zs where zs: "dropWhile P (rev xs @ [x]) = zs @ [x]" by auto
  show ?thesis unfolding Cons by (simp add: zs nx)
qed

lemma dropWhile_strip: "dropWhile is_space (strip s) = strip s"
  unfolding strip_def by (rule dropWhile_rev_dropWhile)

lemma strip_strip: "strip (strip s) = strip s"
proof -
  have "strip (strip s) = rev (dropWhile is_space (rev (strip s)))"
    by (simp add: strip_def [of "strip s"] dropWhile_strip)
  also have "\<dots> = strip s" by (simp add: strip_def)
  finally show ?thesis .
qed

lemma fold_parse_records_step:
  "fold parse_records_step ls S =
     S \<union> Set.filter (\<lambda>r. r \<noteq> [] \<and> \<not> startswith r (str_of ''#'')) (strip ` set ls)"
  by (induction ls arbitrary: S) (auto simp: parse_records_step_def Let_def)

lemma splitlines_Nil: "splitlines [] = []"
  by (simp add: splitlines_def)

lemma parse_records_eq_record_lines: "parse_records c = record_lines c"
  by (simp add: parse_records_def record_lines_def fold_parse_records_step splitlines_Nil)

lemma reordered_parse_records:
  assumes "reordered a b"
  shows "parse_records a = parse_records b"
proof -
  from assms have "set (splitlines a) = set (splitlines b)"
    unfolding reordered_def by (rule mset_eq_setD)
  then show ?thesis
    by (simp only: parse_records_eq_record_lines record_lines_def)
qed

lemma finite_parse_records: "finite (parse_records c)"
  by (simp add: parse_records_eq_record_lines record_lines_def)

lemma parse_records_member:
  "r \<in> parse_records c \<Longrightarrow> r \<noteq> [] \<and> \<not> startswith r (str_of ''#'') \<and> strip r = r"
  by (auto simp: parse_records_eq_record_lines record_lines_def strip_strip)

text \<open>
  C2. For all texts \<open>a\<close> and \<open>b\<close>, the difference \<open>parse_records a - parse_records b\<close>
  that \<^verbatim>\<open>main\<close> computes is the set of trimmed, non-empty lines without the comment
  marker that occur in \<open>a\<close> and do not occur in \<open>b\<close>, and it is the same for every
  reordering of the lines of \<open>a\<close> and of the lines of \<open>b\<close>.
\<close>

theorem parse_records_diff:
  "parse_records a - parse_records b = {r \<in> record_lines a. r \<notin> record_lines b} \<and>
   (\<forall>a' b'. reordered a' a \<and> reordered b' b \<longrightarrow>
      parse_records a' - parse_records b' = parse_records a - parse_records b)"
proof (intro conjI allI impI)
  show "parse_records a - parse_records b = {r \<in> record_lines a. r \<notin> record_lines b}"
    by (auto simp: parse_records_eq_record_lines)
next
  fix a' b'
  assume "reordered a' a \<and> reordered b' b"
  then have "reordered a' a" and "reordered b' b" by simp_all
  then have "parse_records a' = parse_records a" and "parse_records b' = parse_records b"
    by (simp_all only: reordered_parse_records [of a' a] reordered_parse_records [of b' b])
  then show "parse_records a' - parse_records b' = parse_records a - parse_records b"
    by (simp only:)
qed

theorem parse_records_diff_witness:
  "reordered (str_of '' y '' @ [10] @ str_of ''x'' @ [13, 10] @ str_of ''# c'')
     (str_of ''x'' @ [10] @ str_of ''# c'' @ [10] @ str_of '' y '' @ [10]) \<and>
   reordered (str_of ''y'') (str_of ''y'' @ [10]) \<and>
   parse_records (str_of '' y '' @ [10] @ str_of ''x'' @ [13, 10] @ str_of ''# c'')
     - parse_records (str_of ''y'') = {str_of ''x''} \<and>
   {r \<in> record_lines (str_of ''x'' @ [10] @ str_of ''# c'' @ [10] @ str_of '' y '' @ [10]).
      r \<notin> record_lines (str_of ''y'' @ [10])} = {str_of ''x''}"
proof -
  let ?a = "str_of ''x'' @ [10] @ str_of ''# c'' @ [10] @ str_of '' y '' @ [10]"
  let ?a' = "str_of '' y '' @ [10] @ str_of ''x'' @ [13, 10] @ str_of ''# c''"
  let ?b = "str_of ''y'' @ [10]"
  let ?b' = "str_of ''y''"
  have ra: "reordered ?a' ?a" by (simp add: reordered_def str_eval)
  have rb: "reordered ?b' ?b" by (simp add: reordered_def str_eval)
  have d: "parse_records ?a - parse_records ?b = {str_of ''x''}" by (simp add: str_eval)
  note t = parse_records_diff [of ?a ?b]
  from t ra rb have "parse_records ?a' - parse_records ?b' = parse_records ?a - parse_records ?b"
    by blast
  then have c3: "parse_records ?a' - parse_records ?b' = {str_of ''x''}"
    using d by (rule trans)
  from t have "{r \<in> record_lines ?a. r \<notin> record_lines ?b} = parse_records ?a - parse_records ?b"
    by (simp only:)
  then have c4: "{r \<in> record_lines ?a. r \<notin> record_lines ?b} = {str_of ''x''}"
    using d by (rule trans)
  show ?thesis using ra rb c3 c4 by (intro conjI) assumption+
qed

text \<open>
  C3. \<open>parse_records\<close> is a function of the lines of the text only: the same text gives
  the same set, every reordering of the lines gives the same set, and the set never holds
  the empty string or a string that, trimmed, starts with the comment marker.
\<close>

theorem parse_records_order_independent:
  "reordered a a \<and>
   (\<forall>b. reordered b a \<longrightarrow> parse_records b = parse_records a) \<and>
   [] \<notin> parse_records a \<and>
   (\<forall>r \<in> parse_records a. \<not> startswith (strip r) (str_of ''#''))"
proof (intro conjI allI impI ballI)
  show "reordered a a" by (simp add: reordered_def)
next
  fix b assume "reordered b a"
  then show "parse_records b = parse_records a" by (rule reordered_parse_records)
next
  show "[] \<notin> parse_records a" using parse_records_member [of "[]" a] by blast
next
  fix r assume "r \<in> parse_records a"
  from parse_records_member [OF this]
  have "\<not> startswith r (str_of ''#'')" and "strip r = r" by simp_all
  then show "\<not> startswith (strip r) (str_of ''#'')"
    by (simp only: not_False_eq_True)
qed

theorem parse_records_order_independent_witness:
  "reordered (str_of ''b'' @ [10] @ str_of ''#a'' @ [10, 10] @ str_of ''a'')
     (str_of ''a'' @ [13, 10] @ str_of ''b'' @ [13, 10, 13, 10] @ str_of ''#a'') \<and>
   parse_records (str_of ''b'' @ [10] @ str_of ''#a'' @ [10, 10] @ str_of ''a'')
     = {str_of ''a'', str_of ''b''} \<and>
   str_of ''a'' \<in> parse_records
     (str_of ''a'' @ [13, 10] @ str_of ''b'' @ [13, 10, 13, 10] @ str_of ''#a'') \<and>
   \<not> startswith (strip (str_of ''a'')) (str_of ''#'')"
proof -
  let ?a = "str_of ''a'' @ [13, 10] @ str_of ''b'' @ [13, 10, 13, 10] @ str_of ''#a''"
  let ?b = "str_of ''b'' @ [10] @ str_of ''#a'' @ [10, 10] @ str_of ''a''"
  have r: "reordered ?b ?a" by (simp add: reordered_def str_eval)
  have p: "parse_records ?a = {str_of ''a'', str_of ''b''}"
    by (simp add: str_eval insert_commute)
  have m: "str_of ''a'' \<in> parse_records ?a" unfolding p by (rule insertI1)
  note t = parse_records_order_independent [of ?a]
  from t r have "parse_records ?b = parse_records ?a" by blast
  then have c2: "parse_records ?b = {str_of ''a'', str_of ''b''}" using p by (rule trans)
  from t m have c4: "\<not> startswith (strip (str_of ''a'')) (str_of ''#'')" by blast
  show ?thesis using r c2 m c4 by (intro conjI) assumption+
qed

section \<open>Properties of the calendar\<close>

lemma days_before_year_cycle:
  assumes "0 \<le> b" "b \<le> 3" "0 \<le> c" "c \<le> 24" "0 \<le> d" "d \<le> 3"
  shows "days_before_year (400 * a + 100 * b + 4 * c + d + 1)
           = 146097 * a + 36524 * b + 1461 * c + 365 * d"
proof -
  let ?y = "400 * a + 100 * b + 4 * c + d"
  have d4: "?y div 4 = 100 * a + 25 * b + c" using assms by linarith
  have d100: "?y div 100 = 4 * a + b" using assms by linarith
  have d400: "?y div 400 = a" using assms by linarith
  show ?thesis
    unfolding days_before_year_def Let_def
    using d4 d100 d400 by simp
qed

lemma mod_eq_0_upto: "0 < (x::int) \<Longrightarrow> x \<le> k \<Longrightarrow> x mod k = 0 \<longleftrightarrow> x = k"
  by (cases "x = k") simp_all

lemma is_leap_cycle:
  assumes "0 \<le> b" "b \<le> 3" "0 \<le> c" "c \<le> 24" "0 \<le> d" "d \<le> 3"
  shows "is_leap (400 * a + 100 * b + 4 * c + d + 1) \<longleftrightarrow> d = 3 \<and> (c \<noteq> 24 \<or> b = 3)"
proof -
  let ?y = "400 * a + 100 * b + 4 * c + d + 1"
  have "?y = 4 * (100 * a + 25 * b + c) + (d + 1)" by simp
  then have m4: "?y mod 4 = (d + 1) mod 4" by (simp only: mod_mult_self4)
  have "?y = 100 * (4 * a + b) + (4 * c + d + 1)" by simp
  then have m100: "?y mod 100 = (4 * c + d + 1) mod 100" by (simp only: mod_mult_self4)
  have "?y = 400 * a + (100 * b + 4 * c + d + 1)" by simp
  then have m400: "?y mod 400 = (100 * b + 4 * c + d + 1) mod 400"
    by (simp only: mod_mult_self4)
  have a: "(d + 1) mod 4 = 0 \<longleftrightarrow> d = 3"
    using mod_eq_0_upto [of "d + 1" 4] assms by linarith
  have b: "(4 * c + d + 1) mod 100 = 0 \<longleftrightarrow> 4 * c + d + 1 = 100"
    using mod_eq_0_upto [of "4 * c + d + 1" 100] assms by linarith
  have c: "(100 * b + 4 * c + d + 1) mod 400 = 0 \<longleftrightarrow> 100 * b + 4 * c + d + 1 = 400"
    using mod_eq_0_upto [of "100 * b + 4 * c + d + 1" 400] assms by linarith
  show ?thesis unfolding is_leap_def m4 m100 m400 a b c using assms by auto
qed

lemma month_estimate:
  fixes n :: int and L :: bool
  assumes "0 \<le> n" "n < 365"
  defines "m0 \<equiv> (n + 50) div 32"
  defines "p0 \<equiv> DAYS_BEFORE_MONTH ! nat m0 + (if m0 > 2 \<and> L then 1 else 0)"
  defines "m \<equiv> if p0 > n then m0 - 1 else m0"
  defines "p \<equiv> if p0 > n
     then p0 - (DAYS_IN_MONTH ! nat (m0 - 1) + (if m0 - 1 = 2 \<and> L then 1 else 0)) else p0"
  shows "1 \<le> m \<and> m \<le> 12 \<and> p = DAYS_BEFORE_MONTH ! nat m + (if m > 2 \<and> L then 1 else 0) \<and>
         p \<le> n \<and> n - p + 1 \<le> (if m = 2 \<and> L then 29 else DAYS_IN_MONTH ! nat m)"
proof -
  have "1 \<le> m0" "m0 \<le> 12" unfolding m0_def using assms(1,2) by linarith+
  then have m0: "m0 = 1 \<or> m0 = 2 \<or> m0 = 3 \<or> m0 = 4 \<or> m0 = 5 \<or> m0 = 6 \<or> m0 = 7 \<or> m0 = 8 \<or>
      m0 = 9 \<or> m0 = 10 \<or> m0 = 11 \<or> m0 = 12" by arith
  { assume k: "m0 = 1"
    then have r: "-18 \<le> n" "n \<le> 13" unfolding m0_def by linarith+
    have ?thesis
      using r assms(1,2) unfolding m_def p_def p0_def k
      by (cases L) (simp_all add: DAYS_BEFORE_MONTH_def DAYS_IN_MONTH_def) }
  note c1 = this
  { assume k: "m0 = 2"
    then have r: "14 \<le> n" "n \<le> 45" unfolding m0_def by linarith+
    have ?thesis
      using r assms(1,2) unfolding m_def p_def p0_def k
      by (cases L) (simp_all add: DAYS_BEFORE_MONTH_def DAYS_IN_MONTH_def) }
  note c2 = this
  { assume k: "m0 = 3"
    then have r: "46 \<le> n" "n \<le> 77" unfolding m0_def by linarith+
    have ?thesis
      using r assms(1,2) unfolding m_def p_def p0_def k
      by (cases L) (simp_all add: DAYS_BEFORE_MONTH_def DAYS_IN_MONTH_def) }
  note c3 = this
  { assume k: "m0 = 4"
    then have r: "78 \<le> n" "n \<le> 109" unfolding m0_def by linarith+
    have ?thesis
      using r assms(1,2) unfolding m_def p_def p0_def k
      by (cases L) (simp_all add: DAYS_BEFORE_MONTH_def DAYS_IN_MONTH_def) }
  note c4 = this
  { assume k: "m0 = 5"
    then have r: "110 \<le> n" "n \<le> 141" unfolding m0_def by linarith+
    have ?thesis
      using r assms(1,2) unfolding m_def p_def p0_def k
      by (cases L) (simp_all add: DAYS_BEFORE_MONTH_def DAYS_IN_MONTH_def) }
  note c5 = this
  { assume k: "m0 = 6"
    then have r: "142 \<le> n" "n \<le> 173" unfolding m0_def by linarith+
    have ?thesis
      using r assms(1,2) unfolding m_def p_def p0_def k
      by (cases L) (simp_all add: DAYS_BEFORE_MONTH_def DAYS_IN_MONTH_def) }
  note c6 = this
  { assume k: "m0 = 7"
    then have r: "174 \<le> n" "n \<le> 205" unfolding m0_def by linarith+
    have ?thesis
      using r assms(1,2) unfolding m_def p_def p0_def k
      by (cases L) (simp_all add: DAYS_BEFORE_MONTH_def DAYS_IN_MONTH_def) }
  note c7 = this
  { assume k: "m0 = 8"
    then have r: "206 \<le> n" "n \<le> 237" unfolding m0_def by linarith+
    have ?thesis
      using r assms(1,2) unfolding m_def p_def p0_def k
      by (cases L) (simp_all add: DAYS_BEFORE_MONTH_def DAYS_IN_MONTH_def) }
  note c8 = this
  { assume k: "m0 = 9"
    then have r: "238 \<le> n" "n \<le> 269" unfolding m0_def by linarith+
    have ?thesis
      using r assms(1,2) unfolding m_def p_def p0_def k
      by (cases L) (simp_all add: DAYS_BEFORE_MONTH_def DAYS_IN_MONTH_def) }
  note c9 = this
  { assume k: "m0 = 10"
    then have r: "270 \<le> n" "n \<le> 301" unfolding m0_def by linarith+
    have ?thesis
      using r assms(1,2) unfolding m_def p_def p0_def k
      by (cases L) (simp_all add: DAYS_BEFORE_MONTH_def DAYS_IN_MONTH_def) }
  note c10 = this
  { assume k: "m0 = 11"
    then have r: "302 \<le> n" "n \<le> 333" unfolding m0_def by linarith+
    have ?thesis
      using r assms(1,2) unfolding m_def p_def p0_def k
      by (cases L) (simp_all add: DAYS_BEFORE_MONTH_def DAYS_IN_MONTH_def) }
  note c11 = this
  { assume k: "m0 = 12"
    then have r: "334 \<le> n" "n \<le> 365" unfolding m0_def by linarith+
    have ?thesis
      using r assms(1,2) unfolding m_def p_def p0_def k
      by (cases L) (simp_all add: DAYS_BEFORE_MONTH_def DAYS_IN_MONTH_def) }
  note c12 = this
  from m0 c1 c2 c3 c4 c5 c6 c7 c8 c9 c10 c11 c12 show ?thesis by blast
qed

lemma ord2ymd_correct:
  "case ord2ymd n of (y, m, d) \<Rightarrow>
     1 \<le> m \<and> m \<le> 12 \<and> 1 \<le> d \<and> d \<le> days_in_month y m \<and> ymd2ord y m d = n"
proof -
  define a where "a = (n - 1) div 146097"
  define r1 where "r1 = (n - 1) mod 146097"
  define b where "b = r1 div 36524"
  define r2 where "r2 = r1 mod 36524"
  define c where "c = r2 div 1461"
  define r3 where "r3 = r2 mod 1461"
  define d where "d = r3 div 365"
  define r4 where "r4 = r3 mod 365"
  define L where "L \<longleftrightarrow> d = 3 \<and> (c \<noteq> 24 \<or> b = 3)"
  define m0 where "m0 = (r4 + 50) div 32"
  define p0 where "p0 = DAYS_BEFORE_MONTH ! nat m0 + (if m0 > 2 \<and> L then 1 else 0)"
  define m where "m = (if p0 > r4 then m0 - 1 else m0)"
  define p where "p = (if p0 > r4
     then p0 - (DAYS_IN_MONTH ! nat (m0 - 1) + (if m0 - 1 = 2 \<and> L then 1 else 0)) else p0)"
  have n: "n = 146097 * a + r1 + 1" and r1: "0 \<le> r1" "r1 < 146097"
    unfolding a_def r1_def by simp_all
  have r1e: "r1 = 36524 * b + r2" and r2: "0 \<le> r2" "r2 < 36524"
    unfolding b_def r2_def by simp_all
  have r2e: "r2 = 1461 * c + r3" and r3: "0 \<le> r3" "r3 < 1461"
    unfolding c_def r3_def by simp_all
  have r3e: "r3 = 365 * d + r4" and r4: "0 \<le> r4" "r4 < 365"
    unfolding d_def r4_def by simp_all
  have b: "0 \<le> b" "b \<le> 4" using r1 r1e r2 by linarith+
  have c: "0 \<le> c" "c \<le> 24" using r2 r2e r3 by linarith+
  have d: "0 \<le> d" "d \<le> 4" using r3 r3e r4 by linarith+
  have o: "ord2ymd n =
      (if d = 4 \<or> b = 4 then (400 * a + 100 * b + 4 * c + d, 12, 31)
       else (400 * a + 100 * b + 4 * c + d + 1, m, r4 - p + 1))"
    unfolding ord2ymd_def Let_def
    unfolding a_def [symmetric] r1_def [symmetric]
    unfolding b_def [symmetric] r2_def [symmetric]
    unfolding c_def [symmetric] r3_def [symmetric]
    unfolding d_def [symmetric] r4_def [symmetric]
    unfolding L_def [symmetric] m0_def [symmetric]
    unfolding p0_def [symmetric]
    by (simp add: m_def p_def)
  show ?thesis
  proof (cases "b = 4")
    case True
    then have z: "r2 = 0" "c = 0" "r3 = 0" "d = 0" "r4 = 0"
      using r1 r1e r2 r2e r3 r3e r4 c d by linarith+
    have y: "400 * a + 100 * b + 4 * c + d = 400 * a + 100 * 3 + 4 * 24 + 3 + 1"
      using True z by simp
    have leap: "is_leap (400 * a + 100 * 3 + 4 * 24 + 3 + 1)"
      by (subst is_leap_cycle) simp_all
    have dby: "days_before_year (400 * a + 100 * 3 + 4 * 24 + 3 + 1)
        = 146097 * a + 36524 * 3 + 1461 * 24 + 365 * 3"
      by (rule days_before_year_cycle) simp_all
    show ?thesis
      unfolding o y using True leap dby n r1e z
      by (simp add: days_in_month_def ymd2ord_def days_before_month_def
          DAYS_IN_MONTH_def DAYS_BEFORE_MONTH_def)
  next
    case b4: False
    then have b3: "b \<le> 3" using b by linarith
    show ?thesis
    proof (cases "d = 4")
      case True
      then have z: "r4 = 0" using r3 r3e r4 by linarith
      have c23: "c \<le> 23" using True r2 r2e r3e z by linarith
      have y: "400 * a + 100 * b + 4 * c + d = 400 * a + 100 * b + 4 * c + 3 + 1"
        using True by simp
      have leap: "is_leap (400 * a + 100 * b + 4 * c + 3 + 1)"
        using is_leap_cycle [of b c 3 a] b b3 c c23 by simp
      have dby: "days_before_year (400 * a + 100 * b + 4 * c + 3 + 1)
          = 146097 * a + 36524 * b + 1461 * c + 365 * 3"
        using days_before_year_cycle [of b c 3 a] b b3 c by simp
      show ?thesis
        unfolding o y using True leap dby n r1e r2e r3e z
        by (simp add: days_in_month_def ymd2ord_def days_before_month_def
            DAYS_IN_MONTH_def DAYS_BEFORE_MONTH_def)
    next
      case False
      then have d3: "d \<le> 3" using d by linarith
      have leap: "is_leap (400 * a + 100 * b + 4 * c + d + 1) \<longleftrightarrow> L"
        unfolding L_def using is_leap_cycle [of b c d a] b b3 c d d3 by simp
      have dby: "days_before_year (400 * a + 100 * b + 4 * c + d + 1)
          = 146097 * a + 36524 * b + 1461 * c + 365 * d"
        using days_before_year_cycle [of b c d a] b b3 c d d3 by simp
      have me: "1 \<le> m \<and> m \<le> 12 \<and>
          p = DAYS_BEFORE_MONTH ! nat m + (if m > 2 \<and> L then 1 else 0) \<and>
          p \<le> r4 \<and> r4 - p + 1 \<le> (if m = 2 \<and> L then 29 else DAYS_IN_MONTH ! nat m)"
        using month_estimate [OF r4, of L] unfolding m_def p_def p0_def m0_def by simp
      have o': "ord2ymd n = (400 * a + 100 * b + 4 * c + d + 1, m, r4 - p + 1)"
        unfolding o using False b4 by simp
      show ?thesis
        unfolding o' using me leap dby n r1e r2e r3e
        by (simp add: days_in_month_def ymd2ord_def days_before_month_def)
    qed
  qed
qed

lemma month_cases:
  "1 \<le> (m::int) \<Longrightarrow> m \<le> 12 \<Longrightarrow>
   m = 1 \<or> m = 2 \<or> m = 3 \<or> m = 4 \<or> m = 5 \<or> m = 6 \<or> m = 7 \<or> m = 8 \<or> m = 9 \<or> m = 10 \<or>
   m = 11 \<or> m = 12"
  by arith

lemma day_of_year_upper:
  assumes "1 \<le> m" "m \<le> 12" "d \<le> days_in_month y m"
  shows "days_before_month y m + d \<le> (if is_leap y then 366 else 365)"
  using month_cases [OF assms(1,2)] assms(3)
  by (auto simp: days_before_month_def days_in_month_def DAYS_BEFORE_MONTH_def
      DAYS_IN_MONTH_def split: if_splits)

lemma div_100_step: "(z + 1) div 100 - z div 100 \<le> (z + 1) div 4 - (z::int) div 4"
proof -
  define q where "q = z div 100"
  define r where "r = z mod 100"
  have z: "z = 100 * q + r" and r: "0 \<le> r" "r < 100" unfolding q_def r_def by simp_all
  show ?thesis
  proof (cases "r = 99")
    case True
    have "(z + 1) div 100 = q + 1" "z div 100 = q" "(z + 1) div 4 = 25 * q + 25"
      "z div 4 = 25 * q + 24"
      unfolding z True by linarith+
    then show ?thesis by simp
  next
    case False
    have "(z + 1) div 100 = q" "z div 100 = q" using r False unfolding z by linarith+
    moreover have "z div 4 \<le> (z + 1) div 4" by (rule zdiv_mono1) simp_all
    ultimately show ?thesis by simp
  qed
qed

lemma days_before_year_step: "days_before_year y + 365 \<le> days_before_year (y + 1)"
proof -
  define z where "z = y - 1"
  define a a' b b' c c' where "a = z div 100" and "a' = (z + 1) div 100" and "b = z div 4"
    and "b' = (z + 1) div 4" and "c = z div 400" and "c' = (z + 1) div 400"
  have 1: "a' - a \<le> b' - b" unfolding a_def a'_def b_def b'_def by (rule div_100_step)
  have 2: "c \<le> c'" unfolding c_def c'_def by (rule zdiv_mono1) simp_all
  have 3: "days_before_year y = z * 365 + b - a + c"
    unfolding days_before_year_def Let_def z_def a_def b_def c_def by simp
  have 4: "days_before_year (y + 1) = (z + 1) * 365 + b' - a' + c'"
    unfolding days_before_year_def Let_def z_def a'_def b'_def c'_def by simp
  show ?thesis unfolding 3 4 using 1 2 by (simp add: distrib_right)
qed

lemma days_before_year_mono: "y \<le> y' \<Longrightarrow> days_before_year y \<le> days_before_year y'"
proof (induct y' rule: int_ge_induct)
  case base
  show ?case by simp
next
  case (step i)
  from days_before_year_step [of i] step show ?case by simp
qed

lemma days_before_year_values:
  "days_before_year 0 = - 366" "days_before_year 98 = 35429" "days_before_year 99 = 35794"
  "days_before_year 10000 = 3652059"
  by (simp_all add: days_before_year_def)

lemma days_before_year_mono_facts:
  "y \<le> 0 \<Longrightarrow> days_before_year y \<le> - 366"
  "y \<le> 98 \<Longrightarrow> days_before_year y \<le> 35429"
  "days_before_year 99 = 35794"
  "10000 \<le> y \<Longrightarrow> 3652059 \<le> days_before_year y"
  using days_before_year_mono [of y 0] days_before_year_mono [of y 98]
    days_before_year_mono [of 10000 y]
  by (simp_all add: days_before_year_values)

lemma ord2ymd_year_bounds:
  assumes "ord2ymd n = (y, m, d)"
  shows "1 \<le> n \<Longrightarrow> 1 \<le> y" and "36160 \<le> n \<Longrightarrow> 100 \<le> y" and "n \<le> 3652059 \<Longrightarrow> y \<le> 9999"
proof -
  from ord2ymd_correct [of n] assms
  have m: "1 \<le> m" "m \<le> 12" and d: "1 \<le> d" "d \<le> days_in_month y m"
    and n: "n = days_before_year y + days_before_month y m + d"
    by (simp_all add: ymd2ord_def)
  have up: "days_before_month y m + d \<le> (if is_leap y then 366 else 365)"
    using day_of_year_upper [OF m d(2)] .
  have low: "0 \<le> days_before_month y m"
    using month_cases [OF m]
    by (auto simp: days_before_month_def DAYS_BEFORE_MONTH_def)
  show "1 \<le> y" if "1 \<le> n"
  proof (rule ccontr)
    assume "\<not> 1 \<le> y"
    then have "days_before_year y \<le> - 366" using days_before_year_mono_facts(1) by simp
    with up n that show False by (simp split: if_splits)
  qed
  show "100 \<le> y" if "36160 \<le> n"
  proof (rule ccontr)
    assume a: "\<not> 100 \<le> y"
    show False
    proof (cases "y = 99")
      case True
      have "\<not> is_leap 99" by (simp add: is_leap_def)
      with up n that True days_before_year_mono_facts(3) show False by simp
    next
      case False
      with a have "y \<le> 98" by simp
      then have "days_before_year y \<le> 35429" by (rule days_before_year_mono_facts(2))
      with up n that show False by (simp split: if_splits)
    qed
  qed
  show "y \<le> 9999" if "n \<le> 3652059"
  proof (rule ccontr)
    assume "\<not> y \<le> 9999"
    then have "3652059 \<le> days_before_year y" using days_before_year_mono_facts(4) by simp
    with low d n that show False by simp
  qed
qed

lemma gmtime_correct:
  assumes "gmtime t = (y, m, d, hh, mm, ss)"
  shows "1 \<le> m \<and> m \<le> 12 \<and> 1 \<le> d \<and> d \<le> days_in_month y m \<and>
         0 \<le> hh \<and> hh \<le> 23 \<and> 0 \<le> mm \<and> mm \<le> 59 \<and> 0 \<le> ss \<and> ss \<le> 59 \<and>
         (ymd2ord y m d - 719163) * 86400 + hh * 3600 + mm * 60 + ss = t"
    and "- 62135596800 \<le> t \<Longrightarrow> 1 \<le> y"
    and "- 59011459200 \<le> t \<Longrightarrow> 100 \<le> y"
    and "t \<le> 253402300799 \<Longrightarrow> y \<le> 9999"
proof -
  define days where "days = t div 86400"
  define secs where "secs = t mod 86400"
  have t: "t = days * 86400 + secs" and secs: "0 \<le> secs" "secs < 86400"
    unfolding days_def secs_def by simp_all
  from assms have o: "ord2ymd (days + 719163) = (y, m, d)"
    and hh: "hh = secs div 3600" and mm: "mm = secs mod 3600 div 60" and ss: "ss = secs mod 60"
    unfolding gmtime_def Let_def days_def secs_def by (simp_all split: prod.splits)
  from ord2ymd_correct [of "days + 719163"] o
  have c: "1 \<le> m" "m \<le> 12" "1 \<le> d" "d \<le> days_in_month y m"
    "ymd2ord y m d = days + 719163" by simp_all
  define w where "w = secs mod 3600"
  have w: "0 \<le> w" "w < 3600" unfolding w_def by simp_all
  have s1: "secs = 3600 * hh + w" unfolding hh w_def by simp
  have "secs mod 60 = secs mod 3600 mod 60" by (simp add: mod_mod_cancel)
  then have s2: "w = 60 * mm + ss"
    unfolding mm ss w_def by (simp only: mult_div_mod_eq)
  have s3: "0 \<le> ss" "ss < 60" unfolding ss by simp_all
  have s: "hh * 3600 + mm * 60 + ss = secs" using s1 s2 by simp
  have r: "0 \<le> hh" "hh \<le> 23" "0 \<le> mm" "mm \<le> 59" "0 \<le> ss" "ss \<le> 59"
    using secs w s1 s2 s3 by linarith+
  show "1 \<le> m \<and> m \<le> 12 \<and> 1 \<le> d \<and> d \<le> days_in_month y m \<and>
         0 \<le> hh \<and> hh \<le> 23 \<and> 0 \<le> mm \<and> mm \<le> 59 \<and> 0 \<le> ss \<and> ss \<le> 59 \<and>
         (ymd2ord y m d - 719163) * 86400 + hh * 3600 + mm * 60 + ss = t"
    using c r s t by simp
  show "1 \<le> y" if "- 62135596800 \<le> t"
  proof -
    from that have "1 \<le> days + 719163" unfolding days_def by linarith
    then show ?thesis by (rule ord2ymd_year_bounds(1) [OF o])
  qed
  show "100 \<le> y" if "- 59011459200 \<le> t"
  proof -
    from that have "36160 \<le> days + 719163" unfolding days_def by linarith
    then show ?thesis by (rule ord2ymd_year_bounds(2) [OF o])
  qed
  show "y \<le> 9999" if "t \<le> 253402300799"
  proof -
    from that have "days + 719163 \<le> 3652059" unfolding days_def by linarith
    then show ?thesis by (rule ord2ymd_year_bounds(3) [OF o])
  qed
qed

lemma days_in_month_le: "1 \<le> m \<Longrightarrow> m \<le> 12 \<Longrightarrow> days_in_month y m \<le> 31"
  using month_cases [of m] by (auto simp: days_in_month_def DAYS_IN_MONTH_def)


section \<open>Decimal numbers and words\<close>

lemma decimal_value_ascii: "48 \<le> c \<Longrightarrow> c \<le> 57 \<Longrightarrow> decimal_value c = Some (c - 48)"
  by (simp add: decimal_value_def decimal_zeros_def)

lemma digits_from_ascii:
  "(\<forall>c\<in>set s. 48 \<le> c \<and> c \<le> 57) \<Longrightarrow> s \<noteq> [] \<or> prev \<Longrightarrow>
   digits_from prev s = Some (map (\<lambda>c. c - 48) s)"
proof (induction s arbitrary: prev)
  case Nil
  then show ?case by simp
next
  case (Cons c s)
  then have c: "48 \<le> c" "c \<le> 57" and s: "\<forall>c\<in>set s. 48 \<le> c \<and> c \<le> 57" by simp_all
  have "digits_from True s = Some (map (\<lambda>c. c - 48) s)" using Cons.IH [OF s] by simp
  then show ?case using c by (simp add: decimal_value_ascii)
qed

lemma dropWhile_none: "(\<forall>c\<in>set s. \<not> P c) \<Longrightarrow> dropWhile P s = s"
  by (cases s) simp_all

lemma strip_no_space: "(\<forall>c\<in>set s. \<not> is_space c) \<Longrightarrow> strip s = s"
  by (simp add: strip_def dropWhile_none)

lemma int_strip_no_space:
  "(\<forall>c\<in>set s. \<not> is_space c) \<Longrightarrow>
   rev (dropWhile is_int_space (rev (dropWhile is_int_space s))) = s"
  by (simp add: dropWhile_none is_int_space_def)

lemma digit_not_space: "48 \<le> c \<Longrightarrow> c \<le> 57 \<Longrightarrow> \<not> is_space c"
  by (simp add: is_space_def)

lemma digit_str_no_space: "digit_str s \<Longrightarrow> \<forall>c\<in>set s. \<not> is_space c"
  by (auto simp: digit_str_def is_space_def)

lemma py_int_digit_str:
  assumes "digit_str s" "length s \<le> 4300"
  shows "py_int s = Inr (int (digit_val s))"
proof -
  from assms(1) have ne: "s \<noteq> []" and d: "\<forall>c\<in>set s. 48 \<le> c \<and> c \<le> 57"
    by (simp_all add: digit_str_def)
  have st: "rev (dropWhile is_int_space (rev (dropWhile is_int_space s))) = s"
    using digit_str_no_space [OF assms(1)] by (rule int_strip_no_space)
  from ne d have h: "48 \<le> hd s" by (cases s) simp_all
  have df: "digits_from False s = Some (map (\<lambda>c. c - 48) s)"
    using digits_from_ascii [OF d] ne by simp
  show ?thesis
    unfolding py_int_def Let_def st using h ne df assms(2) by (simp add: digit_val_def)
qed

lemma nat_of_digits_snoc: "nat_of_digits (ds @ [d]) = 10 * nat_of_digits ds + d"
  by (simp add: nat_of_digits_def)

lemma digit_str_str_nat: "digit_str (str_nat n)"
proof (induction n rule: str_nat.induct)
  case (1 n)
  show ?case
  proof (cases "n < 10")
    case True
    then show ?thesis by (simp add: str_nat.simps [of n] digit_str_def)
  next
    case False
    have "n mod 10 < 10" by simp
    then have "48 + n mod 10 \<le> 57" by linarith
    with 1 [OF False] False show ?thesis
      by (simp add: str_nat.simps [of n] digit_str_def)
  qed
qed

lemma digit_val_str_nat: "digit_val (str_nat n) = n"
proof (induction n rule: str_nat.induct)
  case (1 n)
  show ?case
  proof (cases "n < 10")
    case True
    then show ?thesis by (simp add: str_nat.simps [of n] digit_val_def nat_of_digits_def)
  next
    case False
    with 1 [OF False] show ?thesis
      by (simp add: str_nat.simps [of n] digit_val_def nat_of_digits_snoc)
  qed
qed

lemma length_str_nat: "n < 10 ^ k \<Longrightarrow> 0 < k \<Longrightarrow> length (str_nat n) \<le> k"
proof (induction n arbitrary: k rule: str_nat.induct)
  case (1 n)
  show ?case
  proof (cases "n < 10")
    case True
    then show ?thesis using 1(3) by (simp add: str_nat.simps [of n])
  next
    case False
    obtain j where k: "k = Suc j" using 1(3) by (cases k) simp_all
    from False 1(2) k have j: "0 < j" by (cases j) simp_all
    from 1(2) k have "n div 10 < 10 ^ j" by (simp add: less_mult_imp_div_less mult.commute)
    from 1(1) [OF False this j] show ?thesis using False k by (simp add: str_nat.simps [of n])
  qed
qed

lemma py_int_str_int:
  assumes "0 \<le> i" "i < 10000"
  shows "py_int (str_int i) = Inr i"
proof -
  have "nat i < 10 ^ 4" using assms by simp
  then have "length (str_nat (nat i)) \<le> 4" by (rule length_str_nat) simp
  then have "length (str_nat (nat i)) \<le> 4300" by simp
  with digit_str_str_nat
  have "py_int (str_nat (nat i)) = Inr (int (digit_val (str_nat (nat i))))"
    by (rule py_int_digit_str)
  then show ?thesis using assms(1) by (simp add: str_int_def digit_val_str_nat)
qed

lemma digit_str_str_int: "0 \<le> i \<Longrightarrow> digit_str (str_int i)"
  by (simp add: str_int_def digit_str_str_nat)

lemma digit_str_pad2: "0 \<le> i \<Longrightarrow> digit_str (pad2 i)"
  using digit_str_str_int [of i] by (simp add: pad2_def digit_str_def)

lemma py_int_pad2:
  assumes "0 \<le> i" "i < 100"
  shows "py_int (pad2 i) = Inr i"
proof (cases "i < 10")
  case True
  then have s: "str_int i = [48 + nat i]" using assms(1) by (simp add: str_int_def str_nat.simps)
  have "digit_str (pad2 i)" using assms(1) by (rule digit_str_pad2)
  moreover have "length (pad2 i) \<le> 4300" using True assms(1) by (simp add: pad2_def s)
  ultimately have "py_int (pad2 i) = Inr (int (digit_val (pad2 i)))" by (rule py_int_digit_str)
  then show ?thesis using True assms(1) by (simp add: pad2_def s digit_val_def nat_of_digits_def)
next
  case False
  then show ?thesis using assms py_int_str_int [of i] by (simp add: pad2_def)
qed


lemma split_ws_from_word:
  "(\<forall>c\<in>set t. \<not> is_space c) \<Longrightarrow> split_ws_from cur (t @ rest) = split_ws_from (cur @ t) rest"
  by (induction t arbitrary: cur) simp_all

lemma split_ws_from_word_space:
  assumes "\<forall>c\<in>set t. \<not> is_space c" "t \<noteq> []"
  shows "split_ws_from [] (t @ 32 # rest) = t # split_ws_from [] rest"
  using split_ws_from_word [OF assms(1), of "[]" "32 # rest"] assms(2)
  by (simp add: is_space_def)

lemma split_ws_from_last_word:
  assumes "\<forall>c\<in>set t. \<not> is_space c" "t \<noteq> []"
  shows "split_ws_from [] t = [t]"
  using split_ws_from_word [OF assms(1), of "[]" "[]"] assms(2) by simp

lemma split_on_from_part:
  "sep \<notin> set t \<Longrightarrow> split_on_from sep cur (t @ rest) = split_on_from sep (cur @ t) rest"
  by (induction t arbitrary: cur) simp_all

lemma split_on_time:
  assumes "58 \<notin> set a" "58 \<notin> set b" "58 \<notin> set c"
  shows "split_on 58 (a @ 58 # b @ 58 # c) = [a, b, c]"
proof -
  have "split_on 58 (a @ 58 # b @ 58 # c) = a # split_on_from 58 [] (b @ 58 # c)"
    unfolding split_on_def using split_on_from_part [OF assms(1), of "[]"] by simp
  also have "split_on_from 58 [] (b @ 58 # c) = b # split_on_from 58 [] c"
    using split_on_from_part [OF assms(2), of "[]"] by simp
  also have "split_on_from 58 [] c = [c]"
    using split_on_from_part [OF assms(3), of "[]" "[]"] by simp
  finally show ?thesis .
qed

lemma strftime_http:
  "strftime dt (str_of ''%a, %d %b %Y %H:%M:%S GMT'') =
     (DAYNAMES ! nat (weekday dt) @ [44]) @ 32 # pad2 (dt_day dt) @ 32 #
     MONTHNAMES ! nat (dt_month dt - 1) @ 32 # str_int (dt_year dt) @ 32 #
     (pad2 (dt_hour dt) @ 58 # pad2 (dt_minute dt) @ 58 # pad2 (dt_second dt)) @ 32 #
     str_of ''GMT''"
  by (simp add: str_of_def directive_def)

lemma strftime_utc:
  "strftime dt (str_of ''%Y-%m-%d %H:%M:%S UTC'') =
     str_int (dt_year dt) @ 45 # pad2 (dt_month dt) @ 45 # pad2 (dt_day dt) @ 32 #
     pad2 (dt_hour dt) @ 58 # pad2 (dt_minute dt) @ 58 # pad2 (dt_second dt) @ 32 #
     str_of ''UTC''"
  by (simp add: str_of_def directive_def)

lemma dayname_word:
  assumes "0 \<le> k" "k < 7"
  shows "\<forall>c\<in>set (DAYNAMES ! nat k). \<not> is_space c \<and> \<not> is_linebreak c"
proof -
  from assms have "k = 0 \<or> k = 1 \<or> k = 2 \<or> k = 3 \<or> k = 4 \<or> k = 5 \<or> k = 6" by arith
  then show ?thesis
    by (elim disjE) (simp_all add: DAYNAMES_def str_of_def is_space_def is_linebreak_def)
qed

lemma monthname_word:
  assumes "1 \<le> m" "m \<le> 12"
  shows "(\<forall>c\<in>set (MONTHNAMES ! nat (m - 1)). \<not> is_space c \<and> \<not> is_linebreak c) \<and>
         MONTHNAMES ! nat (m - 1) \<noteq> [] \<and>
         lower (MONTHNAMES ! nat (m - 1)) \<in> set monthnames \<and>
         int (list_index (lower (MONTHNAMES ! nat (m - 1))) monthnames) + 1 = m"
  using month_cases [OF assms]
  by (elim disjE)
    (simp_all add: MONTHNAMES_def monthnames_def str_of_def is_space_def is_linebreak_def
      lower_def lower_char_def list_index_def)

lemma zone_offset_gmt: "zone_offset (str_of ''GMT'') = Some 0"
  by (simp add: zone_offset_def str_of_def upper_def upper_char_def timezones_def)


lemma digit_str_facts:
  assumes "digit_str s"
  shows "s \<noteq> []" "\<not> endswith_char s 44" "str_find 58 s = None" "isdigit (hd s)"
    "58 \<notin> set s" "\<forall>c\<in>set s. \<not> is_space c" "\<forall>c\<in>set s. \<not> is_linebreak c"
proof -
  from assms have ne: "s \<noteq> []" and d: "\<forall>c\<in>set s. 48 \<le> c \<and> c \<le> 57"
    by (simp_all add: digit_str_def)
  show "s \<noteq> []" by (rule ne)
  from ne d have "48 \<le> last s" by (simp add: last_in_set)
  then show "\<not> endswith_char s 44" by (simp add: endswith_char_def)
  from d show "58 \<notin> set s" by auto
  then show "str_find 58 s = None" by (simp add: str_find_def)
  from ne d have "48 \<le> hd s \<and> hd s \<le> 57" by (simp add: hd_in_set)
  then show "isdigit (hd s)" by (simp add: isdigit_def decimal_value_ascii)
  from d show "\<forall>c\<in>set s. \<not> is_space c" by (auto simp: is_space_def)
  from d show "\<forall>c\<in>set s. \<not> is_linebreak c" by (auto simp: is_linebreak_def)
qed

lemma time_fields_hms:
  assumes "digit_str a" "digit_str b" "digit_str c"
  shows "time_fields (a @ 58 # b @ 58 # c) = Some (a, b, c)"
    and "\<not> endswith_char (a @ 58 # b @ 58 # c) 44"
    and "\<forall>x\<in>set (a @ 58 # b @ 58 # c). \<not> is_space x"
proof -
  have "split_on 58 (a @ 58 # b @ 58 # c) = [a, b, c]"
    using assms by (intro split_on_time digit_str_facts(5))
  then show "time_fields (a @ 58 # b @ 58 # c) = Some (a, b, c)"
    by (simp add: time_fields_def)
  have "c \<noteq> []" using assms(3) by (rule digit_str_facts(1))
  then have "last (a @ 58 # b @ 58 # c) = last c" by simp
  then show "\<not> endswith_char (a @ 58 # b @ 58 # c) 44"
    using digit_str_facts(2) [OF assms(3)] \<open>c \<noteq> []\<close> by (simp add: endswith_char_def)
  have "\<not> is_space 58" by (simp add: is_space_def)
  then show "\<forall>x\<in>set (a @ 58 # b @ 58 # c). \<not> is_space x"
    using digit_str_facts(6) [OF assms(1)] digit_str_facts(6) [OF assms(2)]
      digit_str_facts(6) [OF assms(3)]
    by (simp add: ball_Un)
qed

lemma parsedate_fields_http:
  assumes d: "0 \<le> d" "d < 100" and m: "1 \<le> m" "m \<le> 12" and y: "100 \<le> y" "y < 10000"
    and hh: "0 \<le> hh" "hh < 100" and mn: "0 \<le> mn" "mn < 100" and ss: "0 \<le> ss" "ss < 100"
  shows "parsedate_fields (pad2 d) (MONTHNAMES ! nat (m - 1)) (str_int y)
           (pad2 hh @ 58 # pad2 mn @ 58 # pad2 ss) (str_of ''GMT'')
         = Some (y, m, d, hh, mn, ss, Some 0)"
proof -
  note mw = monthname_word [OF m]
  have dd: "digit_str (pad2 d)" using d by (simp add: digit_str_pad2)
  have dy: "digit_str (str_int y)" using y by (simp add: digit_str_str_int)
  have dh: "digit_str (pad2 hh)" "digit_str (pad2 mn)" "digit_str (pad2 ss)"
    using hh mn ss by (simp_all add: digit_str_pad2)
  note tf = time_fields_hms [OF dh]
  have ints: "py_int (str_int y) = Inr y" "py_int (pad2 d) = Inr d" "py_int (pad2 hh) = Inr hh"
    "py_int (pad2 mn) = Inr mn" "py_int (pad2 ss) = Inr ss"
    using y d hh mn ss by (simp_all add: py_int_str_int py_int_pad2)
  show ?thesis
    unfolding parsedate_fields_def Let_def
    using mw y m
    by (simp add: digit_str_facts [OF dd] digit_str_facts [OF dy] tf ints zone_offset_gmt)
qed

lemma parsedate_tz_http:
  assumes d: "0 \<le> d" "d < 100" and m: "1 \<le> m" "m \<le> 12" and y: "100 \<le> y" "y < 10000"
    and hh: "0 \<le> hh" "hh < 100" and mn: "0 \<le> mn" "mn < 100" and ss: "0 \<le> ss" "ss < 100"
    and wd: "\<forall>c\<in>set wd. \<not> is_space c"
  shows "parsedate_tz ((wd @ [44]) @ 32 # pad2 d @ 32 # MONTHNAMES ! nat (m - 1) @ 32 #
           str_int y @ 32 # (pad2 hh @ 58 # pad2 mn @ 58 # pad2 ss) @ 32 # str_of ''GMT'')
         = Some (y, m, d, hh, mn, ss, Some 0)"
proof -
  let ?day = "wd @ [44]" and ?dd = "pad2 d" and ?mon = "MONTHNAMES ! nat (m - 1)"
    and ?yy = "str_int y" and ?tm = "pad2 hh @ 58 # pad2 mn @ 58 # pad2 ss"
    and ?tz = "str_of ''GMT''"
  note mw = monthname_word [OF m]
  have dd: "digit_str ?dd" using d by (simp add: digit_str_pad2)
  have dy: "digit_str ?yy" using y by (simp add: digit_str_str_int)
  have dh: "digit_str (pad2 hh)" "digit_str (pad2 mn)" "digit_str (pad2 ss)"
    using hh mn ss by (simp_all add: digit_str_pad2)
  note tf = time_fields_hms [OF dh]
  have "\<not> is_space 44" by (simp add: is_space_def)
  then have w1: "\<forall>c\<in>set ?day. \<not> is_space c" "?day \<noteq> []" using wd by simp_all
  have w2: "\<forall>c\<in>set ?dd. \<not> is_space c" "?dd \<noteq> []" using digit_str_facts [OF dd] by simp_all
  have w3: "\<forall>c\<in>set ?mon. \<not> is_space c" "?mon \<noteq> []" using mw by simp_all
  have w4: "\<forall>c\<in>set ?yy. \<not> is_space c" "?yy \<noteq> []" using digit_str_facts [OF dy] by simp_all
  have w5: "\<forall>c\<in>set ?tm. \<not> is_space c" "?tm \<noteq> []" using tf(3) by simp_all
  have w6: "\<forall>c\<in>set ?tz. \<not> is_space c" "?tz \<noteq> []" by (simp_all add: str_of_def is_space_def)
  have sp: "split_ws (?day @ 32 # ?dd @ 32 # ?mon @ 32 # ?yy @ 32 # ?tm @ 32 # ?tz)
      = [?day, ?dd, ?mon, ?yy, ?tm, ?tz]"
    unfolding split_ws_def
    by (simp only: split_ws_from_word_space [OF w1] split_ws_from_word_space [OF w2]
        split_ws_from_word_space [OF w3] split_ws_from_word_space [OF w4]
        split_ws_from_word_space [OF w5] split_ws_from_last_word [OF w6])
  have dn: "drop_dayname [?day, ?dd, ?mon, ?yy, ?tm, ?tz] = [?dd, ?mon, ?yy, ?tm, ?tz]"
    by (simp add: drop_dayname_def endswith_char_def)
  have r: "rfc850 [?dd, ?mon, ?yy, ?tm, ?tz] = [?dd, ?mon, ?yy, ?tm, ?tz]"
    by (simp add: rfc850_def)
  have z: "split_zone [?dd, ?mon, ?yy, ?tm, ?tz] = [?dd, ?mon, ?yy, ?tm, ?tz]"
    by (simp add: split_zone_def)
  have ne: "?day @ 32 # ?dd @ 32 # ?mon @ 32 # ?yy @ 32 # ?tm @ 32 # ?tz \<noteq> []" by simp
  show ?thesis
    unfolding parsedate_tz_def Let_def sp dn r z
    using ne parsedate_fields_http [OF d m y hh mn ss] by simp
qed


section \<open>Formatting a date and parsing it back\<close>

text \<open>The defining equations that evaluate the date functions on a literal.\<close>

lemmas date_eval = epoch_to_http_date_def fromtimestamp_utc_def gmtime_def ord2ymd_def Let_def
  DAYS_BEFORE_MONTH_def DAYS_IN_MONTH_def weekday_def ymd2ord_def days_before_year_def
  days_before_month_def is_leap_def directive_def DAYNAMES_def MONTHNAMES_def pad2_def
  str_int_def str_nat.simps str_of_def

lemmas parse_eval = parse_http_date_def parsedate_to_datetime_def parsedate_tz_def
  parsedate_fields_def split_ws_def drop_dayname_def rfc850_def split_zone_def time_fields_def
  zone_offset_def py_int_def strip_def is_space_def is_int_space_def endswith_char_def lower_def
  lower_char_def
  upper_def upper_char_def daynames_def monthnames_def timezones_def list_index_def
  str_find_def str_rfind_def split_on_def isdigit_def decimal_value_def decimal_zeros_def
  other_digits_def nat_of_digits_def startswith_def new_datetime_def c_int_def py_timezone_def
  datetime_timestamp_def days_in_month_def ymd2ord_def days_before_year_def
  days_before_month_def is_leap_def DAYS_BEFORE_MONTH_def DAYS_IN_MONTH_def Let_def str_of_def

lemma http_date_round_trip_fields:
  assumes g: "gmtime e = (y, m, d, hh, mn, ss)"
    and r: "- 59011459200 \<le> e" "e \<le> 253402300799"
  shows "epoch_to_http_date e = Inr (strftime
           \<lparr>dt_year = y, dt_month = m, dt_day = d, dt_hour = hh, dt_minute = mn,
            dt_second = ss, dt_utcoffset = Some 0\<rparr> (str_of ''%a, %d %b %Y %H:%M:%S GMT''))"
    and "parse_http_date (Some (strftime
           \<lparr>dt_year = y, dt_month = m, dt_day = d, dt_hour = hh, dt_minute = mn,
            dt_second = ss, dt_utcoffset = Some 0\<rparr> (str_of ''%a, %d %b %Y %H:%M:%S GMT'')))
         = Inr (Some e)"
proof -
  let ?dt = "\<lparr>dt_year = y, dt_month = m, dt_day = d, dt_hour = hh, dt_minute = mn,
            dt_second = ss, dt_utcoffset = Some 0\<rparr>"
  let ?s = "strftime ?dt (str_of ''%a, %d %b %Y %H:%M:%S GMT'')"
  note c = gmtime_correct(1) [OF g]
  have y: "100 \<le> y" "y \<le> 9999"
    using gmtime_correct(3) [OF g r(1)] gmtime_correct(4) [OF g r(2)] by simp_all
  have e63: "\<not> (e < - (2 ^ 63) \<or> 2 ^ 63 \<le> e)" using r by simp
  show "epoch_to_http_date e = Inr ?s"
    unfolding epoch_to_http_date_def fromtimestamp_utc_def g Let_def
    using y e63 by simp
  have d31: "d \<le> 31" using days_in_month_le [where m = m and y = y] c by simp
  have wd: "0 \<le> weekday ?dt" "weekday ?dt < 7" by (simp_all add: weekday_def)
  have w: "\<forall>c\<in>set (DAYNAMES ! nat (weekday ?dt)). \<not> is_space c"
    using dayname_word [OF wd] by simp
  have p: "parsedate_tz ?s = Some (y, m, d, hh, mn, ss, Some 0)"
    unfolding strftime_http
    using parsedate_tz_http [of d m y hh mn ss "DAYNAMES ! nat (weekday ?dt)"] c y w d31
    by simp
  have ne: "?s \<noteq> []" unfolding strftime_http by simp
  have di: "d \<le> days_in_month y m" using c by simp
  have nd: "new_datetime y m d hh mn ss (Some 0) = Inr ?dt"
    unfolding new_datetime_def c_int_def using c y d31 by simp
  have ts: "datetime_timestamp ?dt = e" unfolding datetime_timestamp_def using c by simp
  show "parse_http_date (Some ?s) = Inr (Some e)"
    using ne nd ts p
    by (simp add: parse_http_date_def parsedate_to_datetime_def py_timezone_def)
qed

lemma epoch_round_trip:
  assumes "- 59011459200 \<le> e" "e \<le> 253402300799"
  shows "\<exists>s. epoch_to_http_date e = Inr s \<and> parse_http_date (Some s) = Inr (Some e)"
proof -
  obtain y m d hh mn ss where g: "gmtime e = (y, m, d, hh, mn, ss)"
    by (metis prod_cases3)
  from http_date_round_trip_fields [OF g assms] show ?thesis by blast
qed

text \<open>
  C4, as amended. For every epoch \<open>e\<close> from 1 January of year 100 to 31 December 9999
  (UTC), \<^verbatim>\<open>epoch_to_http_date(e)\<close> returns a string and \<^verbatim>\<open>parse_http_date\<close> of that
  string returns \<open>e\<close>. \<^verbatim>\<open>epoch_to_http_date\<close> also formats the epochs of the years 1 to
  99; there the parser reads the year as a two-digit year and returns another epoch: the
  last second of year 99 comes back as the last second of 1999.
\<close>

theorem http_date_round_trip:
  assumes "- 59011459200 \<le> e" "e \<le> 253402300799"
  shows "\<exists>s. epoch_to_http_date e = Inr s \<and> parse_http_date (Some s) = Inr (Some e)"
  using assms by (rule epoch_round_trip)

theorem http_date_round_trip_witness:
  "epoch_to_http_date 1735689600 = Inr (str_of ''Wed, 01 Jan 2025 00:00:00 GMT'') \<and>
   parse_http_date (Some (str_of ''Wed, 01 Jan 2025 00:00:00 GMT'')) = Inr (Some 1735689600)"
proof -
  have f: "epoch_to_http_date 1735689600 = Inr (str_of ''Wed, 01 Jan 2025 00:00:00 GMT'')"
    by (simp add: date_eval)
  from http_date_round_trip [of 1735689600] f
  have "parse_http_date (Some (str_of ''Wed, 01 Jan 2025 00:00:00 GMT''))
      = Inr (Some 1735689600)" by simp
  with f show ?thesis by (intro conjI)
qed

theorem http_date_round_trip_counterexample:
  "epoch_to_http_date (- 59011459201) = Inr (str_of ''Thu, 31 Dec 99 23:59:59 GMT'') \<and>
   parse_http_date (Some (str_of ''Thu, 31 Dec 99 23:59:59 GMT'')) = Inr (Some 946684799) \<and>
   parse_http_date (Some (str_of ''Thu, 31 Dec 99 23:59:59 GMT''))
     \<noteq> Inr (Some (- 59011459201))"
proof -
  have f: "epoch_to_http_date (- 59011459201) = Inr (str_of ''Thu, 31 Dec 99 23:59:59 GMT'')"
    by (simp add: date_eval)
  have p: "parse_http_date (Some (str_of ''Thu, 31 Dec 99 23:59:59 GMT''))
      = Inr (Some 946684799)"
    by (simp add: parse_eval)
  have n: "parse_http_date (Some (str_of ''Thu, 31 Dec 99 23:59:59 GMT''))
      \<noteq> Inr (Some (- 59011459201))"
    unfolding p by simp
  from f p n show ?thesis by (intro conjI) assumption+
qed

text \<open>
  The first second of year 1 is formatted as well, and parsed back as the first second of
  2001.
\<close>

lemma two_digit_year_not_round_trip:
  "epoch_to_http_date (- 62135596800) = Inr (str_of ''Mon, 01 Jan 1 00:00:00 GMT'') \<and>
   parse_http_date (Some (str_of ''Mon, 01 Jan 1 00:00:00 GMT'')) = Inr (Some 978307200)"
  by (simp add: date_eval) (simp add: parse_eval)

section \<open>The lines of the report\<close>

lemma splitlines_from_line:
  "no_linebreak l \<Longrightarrow> splitlines_from cur (l @ rest) = splitlines_from (cur @ l) rest"
  by (induction l arbitrary: cur) (simp_all add: no_linebreak_def)

lemma splitlines_from_newline: "splitlines_from cur (10 # rest) = cur # splitlines_from [] rest"
  by (cases rest) (simp_all add: is_linebreak_def)

lemma splitlines_from_join:
  "\<forall>l\<in>set ls. no_linebreak l \<Longrightarrow>
   splitlines_from [] (concat (map (\<lambda>l. l @ [10]) ls)) = ls"
proof (induction ls)
  case Nil
  show ?case by simp
next
  case (Cons l ls)
  then have l: "no_linebreak l" and ls: "\<forall>l\<in>set ls. no_linebreak l" by simp_all
  have "splitlines_from [] (concat (map (\<lambda>l. l @ [10]) (l # ls)))
      = splitlines_from [] (l @ 10 # concat (map (\<lambda>l. l @ [10]) ls))" by simp
  also have "\<dots> = splitlines_from l (10 # concat (map (\<lambda>l. l @ [10]) ls))"
    using splitlines_from_line [OF l, of "[]"] by simp
  also have "\<dots> = l # splitlines_from [] (concat (map (\<lambda>l. l @ [10]) ls))"
    by (rule splitlines_from_newline)
  also have "\<dots> = l # ls" using Cons.IH [OF ls] by simp
  finally show ?case .
qed

lemma splitlines_join:
  "\<forall>l\<in>set ls. no_linebreak l \<Longrightarrow> splitlines (concat (map (\<lambda>l. l @ [10]) ls)) = ls"
  unfolding splitlines_def by (rule splitlines_from_join)

lemma report_text_lines:
  "report_text records ts stamp http =
     concat (map (\<lambda>l. l @ [10])
       (report_header (card records) ts stamp http @ [] # body_lines records))"
  by (simp add: report_text_def report_body_def body_lines_def)

lemma strip_hash: "startswith (strip (35 # rest)) (str_of ''#'')"
proof -
  have h: "\<not> is_space 35" by (simp add: is_space_def)
  then have "dropWhile is_space (35 # rest) = 35 # rest" by simp
  moreover from dropWhile_snoc_keep [of is_space 35 "rev rest"] h
  obtain zs where "dropWhile is_space (rev rest @ [35]) = zs @ [35]" by auto
  ultimately have "strip (35 # rest) = 35 # rev zs" by (simp add: strip_def)
  then show ?thesis by (simp add: startswith_def str_of_def)
qed

lemma strip_Nil: "strip [] = []"
  by (simp add: strip_def)

lemma comment_lines_no_records:
  assumes "\<forall>l\<in>set ls. no_linebreak l" and "\<forall>l\<in>set ls. l = [] \<or> hd l = 35"
  shows "parse_records (concat (map (\<lambda>l. l @ [10]) ls)) = {}"
proof -
  have "\<And>l. l \<in> set ls \<Longrightarrow> strip l = [] \<or> startswith (strip l) (str_of ''#'')"
  proof -
    fix l assume "l \<in> set ls"
    with assms(2) have "l = [] \<or> hd l = 35" by blast
    then show "strip l = [] \<or> startswith (strip l) (str_of ''#'')"
    proof
      assume "l = []" then show ?thesis by (simp add: strip_Nil)
    next
      assume h: "hd l = 35"
      show ?thesis
      proof (cases l)
        case Nil then show ?thesis by (simp add: strip_Nil)
      next
        case (Cons c rest)
        with h have "l = 35 # rest" by simp
        then show ?thesis using strip_hash [of rest] by simp
      qed
    qed
  qed
  then show ?thesis
    unfolding parse_records_eq_record_lines record_lines_def splitlines_join [OF assms(1)]
    by auto
qed

lemma file_names_distinct:
  "OUTPUT_FILE \<noteq> CACHE_FILE" "OUTPUT_FILE \<noteq> LAST_MODIFIED_FILE"
  "CACHE_FILE \<noteq> LAST_MODIFIED_FILE" "CACHE_FILE \<noteq> OUTPUT_FILE"
  "LAST_MODIFIED_FILE \<noteq> OUTPUT_FILE" "LAST_MODIFIED_FILE \<noteq> CACHE_FILE"
  by (simp_all add: OUTPUT_FILE_def CACHE_FILE_def LAST_MODIFIED_FILE_def str_of_def)

lemma no_linebreak_append: "no_linebreak (a @ b) \<longleftrightarrow> no_linebreak a \<and> no_linebreak b"
  by (auto simp: no_linebreak_def)

lemma no_linebreak_Cons: "no_linebreak (c # s) \<longleftrightarrow> \<not> is_linebreak c \<and> no_linebreak s"
  by (simp add: no_linebreak_def)

lemma no_linebreak_Nil: "no_linebreak []"
  by (simp add: no_linebreak_def)

lemma no_linebreak_str_nat: "no_linebreak (str_nat n)"
  using digit_str_facts(7) [OF digit_str_str_nat] by (simp add: no_linebreak_def)

lemma no_linebreak_str_int: "no_linebreak (str_int i)"
  by (simp add: str_int_def no_linebreak_Cons no_linebreak_str_nat is_linebreak_def)

lemma no_linebreak_pad2: "no_linebreak (pad2 i)"
  by (simp add: pad2_def no_linebreak_Cons no_linebreak_str_int is_linebreak_def)

lemma no_linebreak_literals:
  "no_linebreak BLOCKLIST_URL"
  "no_linebreak (str_of ''# New records added to Phishing Army Extended Blocklist'')"
  "no_linebreak (str_of ''# Source: '')"
  "no_linebreak (str_of ''# Last updated: '')"
  "no_linebreak (str_of ''# Blocklist Last-Modified: '')"
  "no_linebreak (str_of ''# Blocklist Last-Modified (epoch): '')"
  "no_linebreak (str_of ''# Total new records: '')"
  "no_linebreak (str_of ''# No new records detected in the last check'')"
  "no_linebreak (str_of ''None'')" "no_linebreak (str_of ''Unknown'')"
  "no_linebreak (str_of ''UTC'')" "no_linebreak (str_of ''GMT'')"
  by (simp_all add: BLOCKLIST_URL_def str_of_def no_linebreak_def is_linebreak_def)

lemma no_linebreak_stamp: "no_linebreak (strftime dt (str_of ''%Y-%m-%d %H:%M:%S UTC''))"
  unfolding strftime_utc
  by (simp add: no_linebreak_append no_linebreak_Cons no_linebreak_str_int no_linebreak_pad2
      no_linebreak_literals is_linebreak_def)

lemma epoch_to_http_date_no_linebreak:
  assumes "epoch_to_http_date t = Inr http"
  shows "no_linebreak http"
proof -
  obtain y m d hh mn ss where g: "gmtime t = (y, m, d, hh, mn, ss)"
    by (metis prod_cases3)
  let ?dt = "\<lparr>dt_year = y, dt_month = m, dt_day = d, dt_hour = hh, dt_minute = mn,
            dt_second = ss, dt_utcoffset = Some 0\<rparr>"
  from assms have h: "http = strftime ?dt (str_of ''%a, %d %b %Y %H:%M:%S GMT'')"
    unfolding epoch_to_http_date_def fromtimestamp_utc_def g Let_def
    by (simp split: if_splits)
  note c = gmtime_correct(1) [OF g]
  have wd: "0 \<le> weekday ?dt" "weekday ?dt < 7" by (simp_all add: weekday_def)
  have a: "no_linebreak (DAYNAMES ! nat (weekday ?dt))"
    using dayname_word [OF wd] by (simp add: no_linebreak_def)
  have b: "no_linebreak (MONTHNAMES ! nat (m - 1))"
    using monthname_word [of m] c by (simp add: no_linebreak_def)
  show ?thesis
    unfolding h strftime_http using a b
    by (simp add: no_linebreak_append no_linebreak_Cons no_linebreak_str_int no_linebreak_pad2
        no_linebreak_literals is_linebreak_def)
qed

lemma epoch_to_http_date_ok:
  assumes "- 62135596800 \<le> t" "t \<le> 253402300799"
  shows "\<exists>http. epoch_to_http_date t = Inr http"
proof -
  obtain y m d hh mn ss where g: "gmtime t = (y, m, d, hh, mn, ss)"
    by (metis prod_cases3)
  have y: "1 \<le> y" "y \<le> 9999"
    using gmtime_correct(2) [OF g assms(1)] gmtime_correct(4) [OF g assms(2)] by simp_all
  have e63: "\<not> (t < - (2 ^ 63) \<or> 2 ^ 63 \<le> t)" using assms by simp
  show ?thesis
    unfolding epoch_to_http_date_def fromtimestamp_utc_def g Let_def
    using y e63 by simp
qed

lemma format_epoch_no_linebreak: "no_linebreak (format_epoch ts)"
  by (cases ts) (simp_all add: format_epoch_def no_linebreak_literals no_linebreak_str_int)

lemma report_header_lines:
  assumes "no_linebreak stamp" "no_linebreak http"
  shows "\<forall>l\<in>set (report_header n ts stamp http). no_linebreak l"
    and "\<forall>l\<in>set (report_header n ts stamp http). l = [] \<or> hd l = 35"
    and "\<forall>l\<in>set (report_header n ts stamp http). startswith l (str_of ''#'')"
  using assms
  by (simp_all add: report_header_def no_linebreak_append no_linebreak_literals
      no_linebreak_str_int format_epoch_no_linebreak)
    (simp_all add: str_of_def startswith_def)

lemma empty_report_no_records:
  assumes "no_linebreak stamp" "no_linebreak http"
  shows "parse_records (report_text {} ts stamp http) = {}"
proof -
  let ?ls = "report_header (card ({}::pystr set)) ts stamp http @ [] # body_lines {}"
  have 1: "\<forall>l\<in>set ?ls. no_linebreak l"
    using report_header_lines(1) [OF assms]
    by (simp add: body_lines_def no_linebreak_literals no_linebreak_Nil)
  have 2: "\<forall>l\<in>set ?ls. l = [] \<or> hd l = 35"
    using report_header_lines(2) [OF assms]
    by (simp add: body_lines_def) (simp add: str_of_def)
  show ?thesis unfolding report_text_lines by (rule comment_lines_no_records [OF 1 2])
qed


section \<open>The main procedure\<close>

lemma report_stamp_no_linebreak: "no_linebreak (report_stamp e)"
  unfolding report_stamp_def by (rule no_linebreak_stamp)

lemma check_last_modified_snd: "snd (check_last_modified e w) = log_action Http_head w"
  by (simp add: check_last_modified_def Let_def split: sum.splits option.splits)

lemma check_last_modified_fst:
  "fst (check_last_modified e w) =
     (case head_response e of
        Inl err \<Rightarrow> Inl err
      | Inr h \<Rightarrow>
          if h = None \<or> h = Some [] then Inr None
          else (case parse_http_date h of
                  Inl err \<Rightarrow> Inl err
                | Inr r \<Rightarrow> if r = None \<or> r = Some 0 then Inr None else Inr r))"
  by (simp add: check_last_modified_def Let_def split: sum.splits option.splits)

lemma check_last_modified_eq:
  "check_last_modified e w = (fst (check_last_modified e w), log_action Http_head w)"
  using check_last_modified_snd [of e w] by (simp add: prod_eq_iff)

lemma check_last_modified_nonzero: "fst (check_last_modified e w) = Inr (Some c) \<Longrightarrow> c \<noteq> 0"
  by (auto simp: check_last_modified_fst split: sum.splits if_splits)

lemma load_last_modified_formattable:
  "load_last_modified w = Inr (Some s) \<Longrightarrow> \<exists>http. epoch_to_http_date s = Inr http"
  by (auto simp: load_last_modified_def split: option.splits sum.splits if_splits)

lemma save_new_records_ok:
  assumes "epoch_to_http_date t = Inr http" "t \<noteq> 0"
  shows "save_new_records R (Some t) e w =
     (Inr (), write_text OUTPUT_FILE (report_text R (Some t) (report_stamp e) http) w)"
  using assms by (simp add: save_new_records_def report_stamp_def)

lemma main_unchanged:
  assumes "load_last_modified w = Inr (Some s)"
    and "fst (check_last_modified e w) = Inr (Some s)"
    and "epoch_to_http_date s = Inr http"
  shows "main e w = (Unchanged, w\<lparr>files := (files w)(OUTPUT_FILE \<mapsto>
             report_text {} (Some s) (report_stamp e) http),
           trace := trace w @ [Http_head,
             Write_file OUTPUT_FILE (report_text {} (Some s) (report_stamp e) http),
             Git_commit]\<rparr>)"
proof -
  have nz: "s \<noteq> 0" using assms(2) by (rule check_last_modified_nonzero)
  have c: "check_last_modified e w = (Inr (Some s), log_action Http_head w)"
    using check_last_modified_eq [of e w] assms(2) by simp
  show ?thesis
    unfolding main_def assms(1) c
    using nz save_new_records_ok [OF assms(3) nz]
    by (simp add: commit_changes_def write_text_def log_action_def)
qed

text \<open>
  C1. When \<^verbatim>\<open>load_last_modified\<close> returns a stored timestamp and \<^verbatim>\<open>check_last_modified\<close>
  returns the same timestamp, \<^verbatim>\<open>main\<close> ends at the return of the unchanged branch: it
  has sent the \<^verbatim>\<open>HEAD\<close> request only (no download), written the report and attempted
  the commit; the report holds no record; the timestamp file is not written and has the
  content it had.
\<close>

theorem unchanged_timestamp_skips_download:
  assumes "load_last_modified w = Inr (Some s)"
    and "fst (check_last_modified e w) = Inr (Some s)"
  shows "\<exists>report.
           main e w = (Unchanged, w\<lparr>files := (files w)(OUTPUT_FILE \<mapsto> report),
             trace := trace w @ [Http_head, Write_file OUTPUT_FILE report, Git_commit]\<rparr>) \<and>
           parse_records report = {} \<and>
           files (snd (main e w)) LAST_MODIFIED_FILE = files w LAST_MODIFIED_FILE"
proof -
  from load_last_modified_formattable [OF assms(1)]
  obtain http where h: "epoch_to_http_date s = Inr http" by blast
  let ?r = "report_text {} (Some s) (report_stamp e) http"
  note m = main_unchanged [OF assms h]
  have "parse_records ?r = {}"
    using report_stamp_no_linebreak epoch_to_http_date_no_linebreak [OF h]
    by (rule empty_report_no_records)
  moreover have "files (snd (main e w)) LAST_MODIFIED_FILE = files w LAST_MODIFIED_FILE"
    unfolding m by (simp add: file_names_distinct)
  ultimately show ?thesis using m by blast
qed


lemma new_records_of_log: "new_records_of content (log_action a w) = new_records_of content w"
  by (simp add: new_records_of_def load_cached_content_def read_text_def log_action_def)

lemma fetch_and_diff_cases:
  assumes "cur \<noteq> 0"
  shows "fetch_and_diff e cur (log_action Http_head w) =
     (case get_response e of
        Inl err \<Rightarrow> (Raised err, log_action Http_get (log_action Http_head w))
      | Inr content \<Rightarrow>
          if content = [] then (Download_failed, log_action Http_get (log_action Http_head w))
          else (case epoch_to_http_date cur of
                  Inl err \<Rightarrow> (Raised err, log_action Http_get (log_action Http_head w))
                | Inr http \<Rightarrow>
                    (Completed, updated_world e cur content
                       (report_text (new_records_of content w) (Some cur) (report_stamp e) http)
                       w)))"
  using assms
  by (simp add: fetch_and_diff_def download_blocklist_def save_new_records_def
      save_last_modified_def save_cached_content_def commit_changes_def write_text_def
      log_action_def new_records_of_def load_cached_content_def read_text_def
      report_stamp_def updated_world_def Let_def
      split: sum.splits option.splits)

lemma main_cases:
  "main e w =
     (case load_last_modified w of
        Inl err \<Rightarrow> (Raised err, w)
      | Inr stored \<Rightarrow>
          (case fst (check_last_modified e w) of
             Inl err \<Rightarrow> (Raised err, log_action Http_head w)
           | Inr None \<Rightarrow> (No_timestamp, log_action Http_head w)
           | Inr (Some cur) \<Rightarrow>
               if stored = Some cur
               then (case save_new_records {} stored e (log_action Http_head w) of
                       (Inl err, w2) \<Rightarrow> (Raised err, w2)
                     | (Inr u, w2) \<Rightarrow> (Unchanged, commit_changes w2))
               else fetch_and_diff e cur (log_action Http_head w)))"
proof (cases "load_last_modified w")
  case (Inl err)
  then show ?thesis by (simp add: main_def)
next
  case (Inr stored)
  show ?thesis
  proof (cases "fst (check_last_modified e w)")
    case (Inl err)
    with Inr check_last_modified_eq [of e w] show ?thesis by (simp add: main_def)
  next
    case r: (Inr r)
    show ?thesis
    proof (cases r)
      case None
      with r Inr check_last_modified_eq [of e w] show ?thesis by (simp add: main_def)
    next
      case (Some cur)
      with r have "cur \<noteq> 0" using check_last_modified_nonzero [of e w cur] by simp
      with Some r Inr check_last_modified_eq [of e w] show ?thesis
        by (auto simp: main_def)
    qed
  qed
qed

lemma main_first_run:
  assumes "load_last_modified w = Inr stored"
    and "fst (check_last_modified e w) = Inr (Some cur)"
    and "stored \<noteq> Some cur"
    and "get_response e = Inr content" and "content \<noteq> []"
    and "epoch_to_http_date cur = Inr http"
  shows "main e w = (Completed, updated_world e cur content
           (report_text (new_records_of content w) (Some cur) (report_stamp e) http) w)"
proof -
  have nz: "cur \<noteq> 0" using assms(2) by (rule check_last_modified_nonzero)
  show ?thesis
    using assms by (simp add: main_cases fetch_and_diff_cases [OF nz])
qed

text \<open>
  C5, as amended. On a first run (no cache file) the set of new records is empty,
  whatever the downloaded content parses to. When the probe gives a timestamp that
  differs from the stored one, the download gives a non-empty content and
  \<^verbatim>\<open>epoch_to_http_date\<close> can format the probed timestamp (its year in UTC is within
  1..9999), \<^verbatim>\<open>main\<close> completes: the report is the report of the empty set and holds no
  record, the content is written to the cache and the probed timestamp to the timestamp
  file.
\<close>

theorem first_run_reports_no_records:
  assumes "files w CACHE_FILE = None"
    and "load_last_modified w = Inr stored"
    and "fst (check_last_modified e w) = Inr (Some cur)"
    and "stored \<noteq> Some cur"
    and "get_response e = Inr content" and "content \<noteq> []"
    and "epoch_to_http_date cur = Inr http"
  shows "\<exists>report.
           main e w = (Completed, w\<lparr>files := (files w)(OUTPUT_FILE \<mapsto> report,
               CACHE_FILE \<mapsto> content, LAST_MODIFIED_FILE \<mapsto> str_int cur),
             trace := trace w @ [Http_head, Http_get, Write_file OUTPUT_FILE report,
               Write_file CACHE_FILE content, Write_file LAST_MODIFIED_FILE (str_int cur),
               Git_commit]\<rparr>) \<and>
           report = report_text {} (Some cur) (report_stamp e) http \<and>
           parse_records report = {} \<and>
           new_records_of content w = {}"
proof -
  have n: "new_records_of content w = {}"
    using assms(1) by (simp add: new_records_of_def load_cached_content_def read_text_def)
  let ?r = "report_text {} (Some cur) (report_stamp e) http"
  have m: "main e w = (Completed, updated_world e cur content ?r w)"
    using main_first_run [OF assms(2-7)] unfolding n .
  have "parse_records ?r = {}"
    using report_stamp_no_linebreak epoch_to_http_date_no_linebreak [OF assms(7)]
    by (rule empty_report_no_records)
  with m n show ?thesis unfolding updated_world_def by blast
qed


lemma log_action_simps:
  "files (log_action a w) = files w" "trace (log_action a w) = trace w @ [a]"
  by (simp_all add: log_action_def)

lemma updated_world_simps:
  "files (updated_world e cur content report w) =
     (files w)(OUTPUT_FILE \<mapsto> report, CACHE_FILE \<mapsto> content,
       LAST_MODIFIED_FILE \<mapsto> str_int cur)"
  "trace (updated_world e cur content report w) =
     trace w @ [Http_head, Http_get, Write_file OUTPUT_FILE report,
       Write_file CACHE_FILE content, Write_file LAST_MODIFIED_FILE (str_int cur), Git_commit]"
  by (simp_all add: updated_world_def)

lemma fetch_and_diff_not_unchanged:
  "cur \<noteq> 0 \<Longrightarrow> fst (fetch_and_diff e cur (log_action Http_head w)) \<noteq> Unchanged"
  by (simp add: fetch_and_diff_cases split: sum.splits)

lemma fetch_and_diff_agree:
  assumes t: "trace w = trace w'" and f: "\<forall>g. g \<noteq> f \<longrightarrow> files w g = files w' g"
    and ff: "f = LAST_MODIFIED_FILE \<or> f = CACHE_FILE"
    and n: "\<forall>content. new_records_of content w = new_records_of content w'"
    and nz: "cur \<noteq> 0"
  shows "fst (fetch_and_diff e cur (log_action Http_head w))
           = fst (fetch_and_diff e cur (log_action Http_head w')) \<and>
         trace (snd (fetch_and_diff e cur (log_action Http_head w)))
           = trace (snd (fetch_and_diff e cur (log_action Http_head w'))) \<and>
         (\<forall>g. g \<noteq> f \<longrightarrow> files (snd (fetch_and_diff e cur (log_action Http_head w))) g
           = files (snd (fetch_and_diff e cur (log_action Http_head w'))) g) \<and>
         (fst (fetch_and_diff e cur (log_action Http_head w)) = Completed \<longrightarrow>
            files (snd (fetch_and_diff e cur (log_action Http_head w)))
              = files (snd (fetch_and_diff e cur (log_action Http_head w'))))"
proof (cases "get_response e")
  case (Inl err)
  then show ?thesis using t f by (simp add: fetch_and_diff_cases [OF nz] log_action_simps)
next
  case (Inr content)
  show ?thesis
  proof (cases "content = []")
    case True
    with Inr show ?thesis using t f by (simp add: fetch_and_diff_cases [OF nz] log_action_simps)
  next
    case False
    show ?thesis
    proof (cases "epoch_to_http_date cur")
      case (Inl err)
      with Inr False show ?thesis
        using t f by (simp add: fetch_and_diff_cases [OF nz] log_action_simps)
    next
      case h: (Inr http)
      have n': "new_records_of content w = new_records_of content w'" using n by simp
      have "(files w)(OUTPUT_FILE \<mapsto> r, CACHE_FILE \<mapsto> content,
               LAST_MODIFIED_FILE \<mapsto> str_int cur)
          = (files w')(OUTPUT_FILE \<mapsto> r, CACHE_FILE \<mapsto> content,
               LAST_MODIFIED_FILE \<mapsto> str_int cur)" for r
        using f ff by (auto simp: fun_eq_iff)
      with Inr False h show ?thesis
        using t by (simp add: fetch_and_diff_cases [OF nz] updated_world_simps n')
    qed
  qed
qed


lemma check_last_modified_fst_world:
  "fst (check_last_modified e w) = fst (check_last_modified e w')"
  by (simp add: check_last_modified_fst)

lemma save_new_records_cases:
  assumes "cur \<noteq> 0"
  shows "save_new_records R (Some cur) e w =
     (case epoch_to_http_date cur of
        Inl err \<Rightarrow> (Inl err, w)
      | Inr http \<Rightarrow>
          (Inr (), write_text OUTPUT_FILE (report_text R (Some cur) (report_stamp e) http) w))"
  using assms by (simp add: save_new_records_def report_stamp_def split: sum.splits)

lemma main_agree:
  assumes t: "trace w = trace w'" and f: "\<forall>g. g \<noteq> f \<longrightarrow> files w g = files w' g"
    and ff: "f = LAST_MODIFIED_FILE \<or> f = CACHE_FILE"
    and l: "load_last_modified w = load_last_modified w'"
    and n: "\<forall>content. new_records_of content w = new_records_of content w'"
  shows "fst (main e w) = fst (main e w') \<and>
         trace (snd (main e w)) = trace (snd (main e w')) \<and>
         (\<forall>g. g \<noteq> f \<longrightarrow> files (snd (main e w)) g = files (snd (main e w')) g) \<and>
         (fst (main e w) = Completed \<longrightarrow> files (snd (main e w)) = files (snd (main e w')))"
proof (cases "load_last_modified w")
  case (Inl err)
  with l have "load_last_modified w' = Inl err" by simp
  with Inl show ?thesis using t f by (simp add: main_cases)
next
  case (Inr stored)
  with l have l': "load_last_modified w' = Inr stored" by simp
  have c: "fst (check_last_modified e w') = fst (check_last_modified e w)"
    by (rule check_last_modified_fst_world)
  show ?thesis
  proof (cases "fst (check_last_modified e w)")
    case (Inl err)
    with Inr l' c show ?thesis using t f by (simp add: main_cases log_action_simps)
  next
    case r: (Inr r)
    show ?thesis
    proof (cases r)
      case None
      with r Inr l' c show ?thesis using t f by (simp add: main_cases log_action_simps)
    next
      case (Some cur)
      with r have nz: "cur \<noteq> 0" using check_last_modified_nonzero [of e w cur] by simp
      show ?thesis
      proof (cases "stored = Some cur")
        case True
        have o: "OUTPUT_FILE \<noteq> f" using ff file_names_distinct by auto
        show ?thesis
        proof (cases "epoch_to_http_date cur")
          case (Inl err)
          with True Some r Inr l' c show ?thesis
            using t f by (simp add: main_cases save_new_records_cases [OF nz] log_action_simps)
        next
          case h: (Inr http)
          with True Some r Inr l' c show ?thesis
            using t f o
            by (simp add: main_cases save_new_records_cases [OF nz] commit_changes_def
                write_text_def log_action_def)
        qed
      next
        case False
        with Some r Inr l' c show ?thesis
          using fetch_and_diff_agree [OF t f ff n nz, of e] by (simp add: main_cases)
      qed
    qed
  qed
qed


text \<open>
  C7. When the timestamp file exists and \<^verbatim>\<open>int\<close> raises \<^verbatim>\<open>ValueError\<close> on its stripped
  content, \<^verbatim>\<open>load_last_modified\<close> returns \<open>None\<close>, and \<^verbatim>\<open>main\<close> runs as it does without
  the file: the same exit, the same requests and writes, the same files (but the
  timestamp file itself when the run ends before it is written); with a probed timestamp
  it takes the download path.
\<close>

theorem invalid_stored_timestamp_is_no_state:
  assumes "files w LAST_MODIFIED_FILE = Some c"
    and "py_int (strip (universal_newlines c)) = Inl ValueError"
  shows "load_last_modified w = Inr None \<and>
         fst (main e w) = fst (main e (w\<lparr>files := (files w)(LAST_MODIFIED_FILE := None)\<rparr>)) \<and>
         trace (snd (main e w))
           = trace (snd (main e (w\<lparr>files := (files w)(LAST_MODIFIED_FILE := None)\<rparr>))) \<and>
         (\<forall>g. g \<noteq> LAST_MODIFIED_FILE \<longrightarrow> files (snd (main e w)) g
           = files (snd (main e (w\<lparr>files := (files w)(LAST_MODIFIED_FILE := None)\<rparr>))) g) \<and>
         (fst (main e w) = Completed \<longrightarrow> files (snd (main e w))
           = files (snd (main e (w\<lparr>files := (files w)(LAST_MODIFIED_FILE := None)\<rparr>)))) \<and>
         (\<forall>cur. fst (check_last_modified e w) = Inr (Some cur) \<longrightarrow>
            main e w = fetch_and_diff e cur (log_action Http_head w))"
proof -
  let ?w0 = "w\<lparr>files := (files w)(LAST_MODIFIED_FILE := None)\<rparr>"
  have l: "load_last_modified w = Inr None"
    using assms by (simp add: load_last_modified_def read_text_def)
  have l0: "load_last_modified ?w0 = Inr None"
    by (simp add: load_last_modified_def read_text_def)
  have n: "\<forall>content. new_records_of content w = new_records_of content ?w0"
    by (simp add: new_records_of_def load_cached_content_def read_text_def file_names_distinct)
  have a: "fst (main e w) = fst (main e ?w0) \<and>
         trace (snd (main e w)) = trace (snd (main e ?w0)) \<and>
         (\<forall>g. g \<noteq> LAST_MODIFIED_FILE \<longrightarrow> files (snd (main e w)) g = files (snd (main e ?w0)) g) \<and>
         (fst (main e w) = Completed \<longrightarrow> files (snd (main e w)) = files (snd (main e ?w0)))"
    by (rule main_agree [where f = LAST_MODIFIED_FILE]) (simp_all add: l l0 n)
  have p: "\<forall>cur. fst (check_last_modified e w) = Inr (Some cur) \<longrightarrow>
            main e w = fetch_and_diff e cur (log_action Http_head w)"
    by (simp add: main_cases l)
  from l a p show ?thesis by (intro conjI) blast+
qed

text \<open>
  C9. A \<^verbatim>\<open>Last-Modified\<close> header that parses to epoch 0 makes \<^verbatim>\<open>check_last_modified\<close>
  return \<open>None\<close> and \<^verbatim>\<open>main\<close> end as it does for a missing header; and with a stored
  timestamp 0, \<^verbatim>\<open>main\<close> never ends at the return of the unchanged branch.
\<close>

theorem epoch_zero_is_absent:
  "(head_response e = Inr (Some h) \<and> parse_http_date (Some h) = Inr (Some 0) \<longrightarrow>
      fst (check_last_modified e w) = Inr None \<and>
      main e w = main (e\<lparr>head_response := Inr None\<rparr>) w \<and>
      (load_last_modified w = Inr stored \<longrightarrow> main e w = (No_timestamp, log_action Http_head w))) \<and>
   (load_last_modified w = Inr (Some 0) \<longrightarrow> fst (main e w) \<noteq> Unchanged)"
proof (intro conjI impI)
  assume a: "head_response e = Inr (Some h) \<and> parse_http_date (Some h) = Inr (Some 0)"
  then show c: "fst (check_last_modified e w) = Inr None"
    by (simp add: check_last_modified_fst)
  have c': "fst (check_last_modified (e\<lparr>head_response := Inr None\<rparr>) w) = Inr None"
    by (simp add: check_last_modified_fst)
  show "main e w = main (e\<lparr>head_response := Inr None\<rparr>) w"
    by (simp add: main_cases c c' split: sum.splits)
  show "main e w = (No_timestamp, log_action Http_head w)"
    if "load_last_modified w = Inr stored"
    using that c by (simp add: main_cases)
next
  assume l: "load_last_modified w = Inr (Some 0)"
  show "fst (main e w) \<noteq> Unchanged"
  proof (cases "fst (check_last_modified e w)")
    case (Inl err)
    with l show ?thesis by (simp add: main_cases)
  next
    case r: (Inr r)
    show ?thesis
    proof (cases r)
      case None
      with r l show ?thesis by (simp add: main_cases)
    next
      case (Some cur)
      with r have nz: "cur \<noteq> 0" using check_last_modified_nonzero [of e w cur] by simp
      with Some r l show ?thesis
        using fetch_and_diff_not_unchanged [OF nz, of e w] by (simp add: main_cases)
    qed
  qed
qed

lemma startswith_hash_literals:
  "startswith (str_of ''# No new records detected in the last check'' @ [10]) (str_of ''#'')"
  by (simp add: startswith_def str_of_def)

text \<open>
  C8, as amended. For every finite set of records and every timestamp that is absent or
  an epoch from year 1 to year 9999 (UTC), \<^verbatim>\<open>save_new_records\<close> returns and writes the
  report: header lines that start with \<^verbatim>\<open>#\<close>, among them the source URL, the time of the
  run, the source timestamp as an HTTP date (\<^verbatim>\<open>Unknown\<close> for an absent or zero
  timestamp) and as an epoch, and the exact count of the set; an empty line; then the
  records in sorted order, one per line, or, when the set is empty, the placeholder line,
  which starts with \<^verbatim>\<open>#\<close>. (For a timestamp of year 10000
  \<^verbatim>\<open>epoch_to_http_date\<close> raises before the file is opened; see the examples.)
\<close>

theorem save_new_records_report_format:
  assumes "finite records"
    and "ts = None \<or> (\<exists>t. ts = Some t \<and> - 62135596800 \<le> t \<and> t \<le> 253402300799)"
  shows "\<exists>header body http.
     save_new_records records ts e w =
       (Inr (), write_text OUTPUT_FILE (concat (map (\<lambda>l. l @ [10]) header) @ [10] @ body) w) \<and>
     (\<forall>l\<in>set header. startswith l (str_of ''#'')) \<and>
     str_of ''# Source: '' @ BLOCKLIST_URL \<in> set header \<and>
     str_of ''# Last updated: '' @ report_stamp e \<in> set header \<and>
     str_of ''# Blocklist Last-Modified: '' @ http \<in> set header \<and>
     (case ts of
        None \<Rightarrow> http = str_of ''Unknown''
      | Some t \<Rightarrow> if t = 0 then http = str_of ''Unknown'' else epoch_to_http_date t = Inr http) \<and>
     str_of ''# Blocklist Last-Modified (epoch): '' @ format_epoch ts \<in> set header \<and>
     str_of ''# Total new records: '' @ str_int (int (card records)) \<in> set header \<and>
     (records \<noteq> {} \<longrightarrow>
        (\<exists>rs. body = concat (map (\<lambda>r. r @ [10]) rs) \<and> sorted rs \<and> distinct rs \<and>
              set rs = records)) \<and>
     (records = {} \<longrightarrow>
        body = str_of ''# No new records detected in the last check'' @ [10] \<and>
        startswith body (str_of ''#''))"
proof -
  obtain http where h: "(case ts of
        None \<Rightarrow> http = str_of ''Unknown''
      | Some t \<Rightarrow> if t = 0 then http = str_of ''Unknown'' else epoch_to_http_date t = Inr http)"
  proof (cases ts)
    case None
    then show ?thesis using that [of "str_of ''Unknown''"] by simp
  next
    case (Some t)
    show ?thesis
    proof (cases "t = 0")
      case True
      with Some show ?thesis using that [of "str_of ''Unknown''"] by simp
    next
      case False
      from assms(2) Some have "- 62135596800 \<le> t" "t \<le> 253402300799" by simp_all
      from epoch_to_http_date_ok [OF this] obtain x where "epoch_to_http_date t = Inr x" by blast
      with Some False show ?thesis using that [of x] by simp
    qed
  qed
  let ?header = "report_header (card records) ts (report_stamp e) http"
  let ?body = "report_body records"
  have s: "save_new_records records ts e w =
       (Inr (), write_text OUTPUT_FILE (concat (map (\<lambda>l. l @ [10]) ?header) @ [10] @ ?body) w)"
    using h
    by (auto simp: save_new_records_def report_stamp_def report_text_def Let_def
        split: option.splits if_splits)
  have hdr: "\<forall>l\<in>set ?header. startswith l (str_of ''#'')"
    by (simp add: report_header_def) (simp add: startswith_def str_of_def)
  have mem: "str_of ''# Source: '' @ BLOCKLIST_URL \<in> set ?header"
    "str_of ''# Last updated: '' @ report_stamp e \<in> set ?header"
    "str_of ''# Blocklist Last-Modified: '' @ http \<in> set ?header"
    "str_of ''# Blocklist Last-Modified (epoch): '' @ format_epoch ts \<in> set ?header"
    "str_of ''# Total new records: '' @ str_int (int (card records)) \<in> set ?header"
    by (simp_all add: report_header_def)
  have b1: "records \<noteq> {} \<longrightarrow>
        (\<exists>rs. ?body = concat (map (\<lambda>r. r @ [10]) rs) \<and> sorted rs \<and> distinct rs \<and>
              set rs = records)"
  proof
    assume "records \<noteq> {}"
    then have "?body = concat (map (\<lambda>r. r @ [10]) (sorted_list_of_set records))"
      by (simp add: report_body_def)
    moreover have "sorted (sorted_list_of_set records)" "distinct (sorted_list_of_set records)"
      "set (sorted_list_of_set records) = records"
      using assms(1) by simp_all
    ultimately show "\<exists>rs. ?body = concat (map (\<lambda>r. r @ [10]) rs) \<and> sorted rs \<and> distinct rs \<and>
              set rs = records" by blast
  qed
  have b2: "records = {} \<longrightarrow>
        ?body = str_of ''# No new records detected in the last check'' @ [10] \<and>
        startswith ?body (str_of ''#'')"
    by (simp add: report_body_def startswith_hash_literals)
  from s hdr mem h b1 b2 show ?thesis by blast
qed

lemma main_completed:
  assumes "fst (main e w) = Completed"
  shows "\<exists>cur content http.
           main e w = (Completed, updated_world e cur content
             (report_text (new_records_of content w) (Some cur) (report_stamp e) http) w) \<and>
           epoch_to_http_date cur = Inr http"
proof (cases "load_last_modified w")
  case (Inl err)
  with assms show ?thesis by (simp add: main_cases)
next
  case (Inr stored)
  show ?thesis
  proof (cases "fst (check_last_modified e w)")
    case (Inl err)
    with Inr assms show ?thesis by (simp add: main_cases)
  next
    case r: (Inr r)
    show ?thesis
    proof (cases r)
      case None
      with r Inr assms show ?thesis by (simp add: main_cases)
    next
      case (Some cur)
      with r have nz: "cur \<noteq> 0" using check_last_modified_nonzero [of e w cur] by simp
      show ?thesis
      proof (cases "stored = Some cur")
        case True
        with Some r Inr assms show ?thesis
          by (simp add: main_cases save_new_records_cases [OF nz] split: sum.splits)
      next
        case False
        with Some r Inr have m: "main e w = fetch_and_diff e cur (log_action Http_head w)"
          by (simp add: main_cases)
        from assms show ?thesis
          unfolding m fetch_and_diff_cases [OF nz]
          by (auto split: sum.splits if_splits)
      qed
    qed
  qed
qed

lemma main_completed_report:
  assumes "fst (main e w) = Completed"
  shows "\<exists>cur content http.
           files (snd (main e w)) OUTPUT_FILE
             = Some (report_text (new_records_of content w) (Some cur) (report_stamp e) http) \<and>
           no_linebreak http"
proof -
  from main_completed [OF assms] obtain cur content http where
    m: "main e w = (Completed, updated_world e cur content
             (report_text (new_records_of content w) (Some cur) (report_stamp e) http) w)"
    and h: "epoch_to_http_date cur = Inr http" by blast
  have "files (snd (main e w)) OUTPUT_FILE
      = Some (report_text (new_records_of content w) (Some cur) (report_stamp e) http)"
    unfolding m by (simp add: updated_world_simps file_names_distinct)
  with epoch_to_http_date_no_linebreak [OF h] show ?thesis by blast
qed

text \<open>
  C10. When the cache file exists and is empty, the set of new records is empty whatever
  the downloaded content is, as it is without a cache file, and \<^verbatim>\<open>main\<close> runs as it does
  without the cache file: the same exit, the same requests and writes, the same files
  (but the cache file itself when the run ends before it is written). The report of a
  completed run holds no record.
\<close>

theorem empty_cache_is_first_run:
  assumes "files w CACHE_FILE = Some []"
  shows "new_records_of content w = {} \<and>
         new_records_of content (w\<lparr>files := (files w)(CACHE_FILE := None)\<rparr>) = {} \<and>
         fst (main e w) = fst (main e (w\<lparr>files := (files w)(CACHE_FILE := None)\<rparr>)) \<and>
         trace (snd (main e w))
           = trace (snd (main e (w\<lparr>files := (files w)(CACHE_FILE := None)\<rparr>))) \<and>
         (\<forall>g. g \<noteq> CACHE_FILE \<longrightarrow> files (snd (main e w)) g
           = files (snd (main e (w\<lparr>files := (files w)(CACHE_FILE := None)\<rparr>))) g) \<and>
         (fst (main e w) = Completed \<longrightarrow>
            files (snd (main e w))
              = files (snd (main e (w\<lparr>files := (files w)(CACHE_FILE := None)\<rparr>))) \<and>
            (\<exists>report. files (snd (main e w)) OUTPUT_FILE = Some report \<and>
               parse_records report = {}))"
proof -
  let ?w0 = "w\<lparr>files := (files w)(CACHE_FILE := None)\<rparr>"
  have l: "load_last_modified w = load_last_modified ?w0"
    by (simp add: load_last_modified_def read_text_def file_names_distinct)
  have n1: "new_records_of content' w = {}" for content'
    using assms by (simp add: new_records_of_def load_cached_content_def read_text_def)
  have n0: "new_records_of content' ?w0 = {}" for content'
    by (simp add: new_records_of_def load_cached_content_def read_text_def)
  have a: "fst (main e w) = fst (main e ?w0) \<and>
         trace (snd (main e w)) = trace (snd (main e ?w0)) \<and>
         (\<forall>g. g \<noteq> CACHE_FILE \<longrightarrow> files (snd (main e w)) g = files (snd (main e ?w0)) g) \<and>
         (fst (main e w) = Completed \<longrightarrow> files (snd (main e w)) = files (snd (main e ?w0)))"
    by (rule main_agree [where f = CACHE_FILE]) (simp_all add: l n1 n0)
  have b: "\<exists>report. files (snd (main e w)) OUTPUT_FILE = Some report \<and> parse_records report = {}"
    if c: "fst (main e w) = Completed"
  proof -
    from main_completed_report [OF c] obtain cur content' http where
      f: "files (snd (main e w)) OUTPUT_FILE
        = Some (report_text (new_records_of content' w) (Some cur) (report_stamp e) http)"
      and h: "no_linebreak http" by blast
    have "parse_records (report_text {} (Some cur) (report_stamp e) http) = {}"
      using report_stamp_no_linebreak h by (rule empty_report_no_records)
    with f show ?thesis unfolding n1 by blast
  qed
  from a b n1 [of content] n0 [of content] show ?thesis by (intro conjI impI) blast+
qed


section \<open>Examples\<close>

lemma example_env_simps:
  "head_response (example_env h g) = h" "get_response (example_env h g) = g"
  "clock (example_env h g) = example_clock"
  by (simp_all add: example_env_def)

lemma example_world_simps:
  "files (example_world fs) = map_of fs" "trace (example_world fs) = []"
  by (simp_all add: example_world_def)

lemma example_epoch: "epoch_to_http_date 1735689600 = Inr example_header"
  unfolding example_header_def by (simp add: date_eval)

lemma example_parse: "parse_http_date (Some example_header) = Inr (Some 1735689600)"
  using epoch_round_trip [of 1735689600] example_epoch by simp

lemma example_header_nonempty: "example_header \<noteq> []"
  by (simp add: example_header_def str_of_def)

lemma example_probe:
  "fst (check_last_modified (example_env (Inr (Some example_header)) g) w)
     = Inr (Some 1735689600)"
  by (simp add: check_last_modified_fst example_env_simps example_parse example_header_nonempty)

lemma epoch_zero_date:
  "epoch_to_http_date 0 = Inr (str_of ''Thu, 01 Jan 1970 00:00:00 GMT'')"
  by (simp add: date_eval)

lemma epoch_zero_parse:
  "parse_http_date (Some (str_of ''Thu, 01 Jan 1970 00:00:00 GMT'')) = Inr (Some 0)"
  using epoch_round_trip [of 0] epoch_zero_date by simp

lemmas int_eval = py_int_def strip_def is_space_def is_int_space_def decimal_value_def decimal_zeros_def
  nat_of_digits_def Let_def str_of_def

lemma example_ints:
  "py_int (strip (universal_newlines (str_of ''1735689600''))) = Inr 1735689600"
  "py_int (strip (universal_newlines (str_of ''0''))) = Inr 0"
  "py_int (strip (universal_newlines (str_of ''not a number''))) = Inl ValueError"
  by (simp_all add: int_eval)

lemma example_load:
  "load_last_modified (example_world []) = Inr None"
  "load_last_modified (example_world [(CACHE_FILE, c)]) = Inr None"
  "load_last_modified (example_world [(LAST_MODIFIED_FILE, str_of ''1735689600'')])
     = Inr (Some 1735689600)"
  "load_last_modified (example_world [(LAST_MODIFIED_FILE, str_of ''0'')]) = Inr (Some 0)"
  by (simp_all add: load_last_modified_def read_text_def example_world_simps example_ints
      example_epoch epoch_zero_date file_names_distinct)

lemma example_records: "parse_records example_content = {str_of ''a'', str_of ''b''}"
  by (simp add: example_content_def str_eval insert_commute)

text \<open>
  A run with the stored timestamp of the example header: nothing is downloaded.
\<close>

theorem unchanged_timestamp_skips_download_witness:
  "load_last_modified (example_world [(LAST_MODIFIED_FILE, str_of ''1735689600'')])
     = Inr (Some 1735689600) \<and>
   fst (check_last_modified (example_env (Inr (Some example_header)) (Inr example_content))
     (example_world [(LAST_MODIFIED_FILE, str_of ''1735689600'')])) = Inr (Some 1735689600) \<and>
   (\<exists>report.
      main (example_env (Inr (Some example_header)) (Inr example_content))
        (example_world [(LAST_MODIFIED_FILE, str_of ''1735689600'')])
      = (Unchanged, (example_world [(LAST_MODIFIED_FILE, str_of ''1735689600'')])
          \<lparr>files := (files (example_world [(LAST_MODIFIED_FILE, str_of ''1735689600'')]))
             (OUTPUT_FILE \<mapsto> report),
           trace := trace (example_world [(LAST_MODIFIED_FILE, str_of ''1735689600'')])
             @ [Http_head, Write_file OUTPUT_FILE report, Git_commit]\<rparr>) \<and>
      parse_records report = {} \<and>
      files (snd (main (example_env (Inr (Some example_header)) (Inr example_content))
        (example_world [(LAST_MODIFIED_FILE, str_of ''1735689600'')]))) LAST_MODIFIED_FILE
      = files (example_world [(LAST_MODIFIED_FILE, str_of ''1735689600'')]) LAST_MODIFIED_FILE)"
proof -
  let ?W = "example_world [(LAST_MODIFIED_FILE, str_of ''1735689600'')]"
  let ?E = "example_env (Inr (Some example_header)) (Inr example_content)"
  have l: "load_last_modified ?W = Inr (Some 1735689600)" by (rule example_load(3))
  have c: "fst (check_last_modified ?E ?W) = Inr (Some 1735689600)" by (rule example_probe)
  from l c unchanged_timestamp_skips_download [OF l c] show ?thesis
    by (intro conjI) assumption+
qed

lemma example_content_nonempty: "example_content \<noteq> []"
  by (simp add: example_content_def)

lemma example_first_run:
  assumes "load_last_modified w = Inr None"
  shows "main (example_env (Inr (Some example_header)) (Inr example_content)) w =
     (Completed, updated_world (example_env (Inr (Some example_header)) (Inr example_content))
        1735689600 example_content
        (report_text (new_records_of example_content w) (Some 1735689600)
           (report_stamp (example_env (Inr (Some example_header)) (Inr example_content)))
           example_header) w)"
  by (rule main_first_run [OF assms example_probe _ _ example_content_nonempty example_epoch])
    (simp_all add: example_env_simps)

text \<open>
  The first run of the example: no stored timestamp, no cache, two records downloaded.
\<close>

theorem first_run_reports_no_records_witness:
  "files (example_world []) CACHE_FILE = None \<and>
   load_last_modified (example_world []) = Inr None \<and>
   fst (check_last_modified (example_env (Inr (Some example_header)) (Inr example_content))
     (example_world [])) = Inr (Some 1735689600) \<and>
   parse_records example_content = {str_of ''a'', str_of ''b''} \<and>
   epoch_to_http_date 1735689600 = Inr example_header \<and>
   (\<exists>report.
      main (example_env (Inr (Some example_header)) (Inr example_content)) (example_world [])
      = (Completed, (example_world [])
          \<lparr>files := (files (example_world []))(OUTPUT_FILE \<mapsto> report,
             CACHE_FILE \<mapsto> example_content, LAST_MODIFIED_FILE \<mapsto> str_int 1735689600),
           trace := trace (example_world []) @ [Http_head, Http_get,
             Write_file OUTPUT_FILE report, Write_file CACHE_FILE example_content,
             Write_file LAST_MODIFIED_FILE (str_int 1735689600), Git_commit]\<rparr>) \<and>
      report = report_text {} (Some 1735689600)
        (report_stamp (example_env (Inr (Some example_header)) (Inr example_content)))
        example_header \<and>
      parse_records report = {} \<and>
      new_records_of example_content (example_world []) = {})"
proof -
  let ?W = "example_world []"
  let ?E = "example_env (Inr (Some example_header)) (Inr example_content)"
  have f: "files ?W CACHE_FILE = None" by (simp add: example_world_simps)
  have l: "load_last_modified ?W = Inr None" by (rule example_load(1))
  have c: "fst (check_last_modified ?E ?W) = Inr (Some 1735689600)" by (rule example_probe)
  have n: "None \<noteq> Some (1735689600::int)" by simp
  have g: "get_response ?E = Inr example_content" by (simp add: example_env_simps)
  from f l c example_records example_epoch
    first_run_reports_no_records [OF f l c n g example_content_nonempty example_epoch]
  show ?thesis by (intro conjI) assumption+
qed

text \<open>
  A header of the last second of 9999 in a zone west of Greenwich is a second of year
  10000 in UTC: the parser accepts it, and \<^verbatim>\<open>epoch_to_http_date\<close> raises on its epoch.
\<close>

lemma year_10000_header:
  "parse_http_date (Some (str_of ''Fri, 31 Dec 9999 23:59:59 -0100''))
     = Inr (Some 253402304399)"
  by (simp add: parse_eval)

lemma year_10000_epoch: "epoch_to_http_date 253402304399 = Inl ValueError"
  by (simp add: date_eval)

text \<open>
  With that header a first run downloads the content and ends with the exception of
  \<^verbatim>\<open>save_new_records\<close>: no file is written, the cache file is still absent.
\<close>

theorem first_run_counterexample:
  "files (example_world []) CACHE_FILE = None \<and>
   fst (check_last_modified
     (example_env (Inr (Some (str_of ''Fri, 31 Dec 9999 23:59:59 -0100''))) (Inr example_content))
     (example_world [])) = Inr (Some 253402304399) \<and>
   main (example_env (Inr (Some (str_of ''Fri, 31 Dec 9999 23:59:59 -0100'')))
       (Inr example_content)) (example_world [])
     = (Raised ValueError, log_action Http_get (log_action Http_head (example_world []))) \<and>
   files (log_action Http_get (log_action Http_head (example_world []))) CACHE_FILE = None"
proof -
  let ?h = "str_of ''Fri, 31 Dec 9999 23:59:59 -0100''"
  let ?E = "example_env (Inr (Some ?h)) (Inr example_content)"
  let ?W = "example_world []"
  have ne: "?h \<noteq> []" by (simp add: str_of_def)
  have c: "fst (check_last_modified ?E ?W) = Inr (Some 253402304399)"
    using ne by (simp add: check_last_modified_fst example_env_simps year_10000_header)
  have m: "main ?E ?W = (Raised ValueError, log_action Http_get (log_action Http_head ?W))"
    using c
    by (simp add: main_cases fetch_and_diff_cases example_load example_env_simps
        example_content_nonempty year_10000_epoch)
  have f: "files ?W CACHE_FILE = None" by (simp add: example_world_simps)
  then have f': "files (log_action Http_get (log_action Http_head ?W)) CACHE_FILE = None"
    by (simp add: log_action_simps)
  from f c m f' show ?thesis by (intro conjI) assumption+
qed


text \<open>
  With a timestamp of year 10000 \<^verbatim>\<open>save_new_records\<close> raises and writes nothing.
\<close>

theorem report_counterexample:
  "save_new_records {str_of ''a''} (Some 253402304399)
     (example_env (Inr None) (Inr example_content)) (example_world [])
   = (Inl ValueError, example_world [])"
  by (simp add: save_new_records_def year_10000_epoch)

lemma example_world_lookup: "files (example_world [(f, c)]) f = Some c"
  by (simp add: example_world_simps)



text \<open>
  A timestamp file that holds no number: the run is the first run of the example.
\<close>

theorem invalid_stored_timestamp_is_no_state_witness:
  "files (example_world [(LAST_MODIFIED_FILE, str_of ''not a number'')]) LAST_MODIFIED_FILE
     = Some (str_of ''not a number'') \<and>
   py_int (strip (universal_newlines (str_of ''not a number''))) = Inl ValueError \<and>
   load_last_modified (example_world [(LAST_MODIFIED_FILE, str_of ''not a number'')])
     = Inr None \<and>
   fst (main (example_env (Inr (Some example_header)) (Inr example_content))
     (example_world [(LAST_MODIFIED_FILE, str_of ''not a number'')])) = Completed \<and>
   fst (main (example_env (Inr (Some example_header)) (Inr example_content))
     ((example_world [(LAST_MODIFIED_FILE, str_of ''not a number'')])
       \<lparr>files := (files (example_world [(LAST_MODIFIED_FILE, str_of ''not a number'')]))
          (LAST_MODIFIED_FILE := None)\<rparr>)) = Completed \<and>
   trace (snd (main (example_env (Inr (Some example_header)) (Inr example_content))
     (example_world [(LAST_MODIFIED_FILE, str_of ''not a number'')])))
   = trace (snd (main (example_env (Inr (Some example_header)) (Inr example_content))
     ((example_world [(LAST_MODIFIED_FILE, str_of ''not a number'')])
       \<lparr>files := (files (example_world [(LAST_MODIFIED_FILE, str_of ''not a number'')]))
          (LAST_MODIFIED_FILE := None)\<rparr>))) \<and>
   files (snd (main (example_env (Inr (Some example_header)) (Inr example_content))
     (example_world [(LAST_MODIFIED_FILE, str_of ''not a number'')])))
   = files (snd (main (example_env (Inr (Some example_header)) (Inr example_content))
     ((example_world [(LAST_MODIFIED_FILE, str_of ''not a number'')])
       \<lparr>files := (files (example_world [(LAST_MODIFIED_FILE, str_of ''not a number'')]))
          (LAST_MODIFIED_FILE := None)\<rparr>))) \<and>
   main (example_env (Inr (Some example_header)) (Inr example_content))
     (example_world [(LAST_MODIFIED_FILE, str_of ''not a number'')])
   = fetch_and_diff (example_env (Inr (Some example_header)) (Inr example_content)) 1735689600
       (log_action Http_head (example_world [(LAST_MODIFIED_FILE, str_of ''not a number'')]))"
proof -
  let ?W = "example_world [(LAST_MODIFIED_FILE, str_of ''not a number'')]"
  let ?V = "?W\<lparr>files := (files ?W)(LAST_MODIFIED_FILE := None)\<rparr>"
  let ?E = "example_env (Inr (Some example_header)) (Inr example_content)"
  have f: "files ?W LAST_MODIFIED_FILE = Some (str_of ''not a number'')"
    by (rule example_world_lookup)
  have i: "py_int (strip (universal_newlines (str_of ''not a number''))) = Inl ValueError"
    by (rule example_ints(3))
  note t = invalid_stored_timestamp_is_no_state [OF f i, of ?E]
  from t have l: "load_last_modified ?W = Inr None" by blast
  have c: "fst (main ?E ?W) = Completed" using example_first_run [OF l] by simp
  from t c have c0: "fst (main ?E ?V) = Completed" by simp
  from t have tr: "trace (snd (main ?E ?W)) = trace (snd (main ?E ?V))" by blast
  from t c have fl: "files (snd (main ?E ?W)) = files (snd (main ?E ?V))" by blast
  from t example_probe [of "Inr example_content" ?W]
  have p: "main ?E ?W = fetch_and_diff ?E 1735689600 (log_action Http_head ?W)" by blast
  from f i l c c0 tr fl p show ?thesis by (intro conjI) assumption+
qed

text \<open>
  An empty cache file: the two downloaded records are not reported as new.
\<close>

theorem empty_cache_is_first_run_witness:
  "files (example_world [(CACHE_FILE, [])]) CACHE_FILE = Some [] \<and>
   parse_records example_content = {str_of ''a'', str_of ''b''} \<and>
   new_records_of example_content (example_world [(CACHE_FILE, [])]) = {} \<and>
   fst (main (example_env (Inr (Some example_header)) (Inr example_content))
     (example_world [(CACHE_FILE, [])])) = Completed \<and>
   fst (main (example_env (Inr (Some example_header)) (Inr example_content))
     ((example_world [(CACHE_FILE, [])])
       \<lparr>files := (files (example_world [(CACHE_FILE, [])]))(CACHE_FILE := None)\<rparr>))
     = Completed \<and>
   files (snd (main (example_env (Inr (Some example_header)) (Inr example_content))
     (example_world [(CACHE_FILE, [])])))
   = files (snd (main (example_env (Inr (Some example_header)) (Inr example_content))
     ((example_world [(CACHE_FILE, [])])
       \<lparr>files := (files (example_world [(CACHE_FILE, [])]))(CACHE_FILE := None)\<rparr>))) \<and>
   (\<exists>report. files (snd (main (example_env (Inr (Some example_header)) (Inr example_content))
       (example_world [(CACHE_FILE, [])]))) OUTPUT_FILE = Some report \<and>
      parse_records report = {})"
proof -
  let ?W = "example_world [(CACHE_FILE, [])]"
  let ?V = "?W\<lparr>files := (files ?W)(CACHE_FILE := None)\<rparr>"
  let ?E = "example_env (Inr (Some example_header)) (Inr example_content)"
  have f: "files ?W CACHE_FILE = Some []" by (rule example_world_lookup)
  note t = empty_cache_is_first_run [OF f, of example_content ?E]
  have l: "load_last_modified ?W = Inr None" by (rule example_load(2))
  have c: "fst (main ?E ?W) = Completed" using example_first_run [OF l] by simp
  from t have n: "new_records_of example_content ?W = {}" by blast
  from t c have c0: "fst (main ?E ?V) = Completed" by simp
  from t c have fl: "files (snd (main ?E ?W)) = files (snd (main ?E ?V))" by blast
  from t c have r: "\<exists>report. files (snd (main ?E ?W)) OUTPUT_FILE = Some report \<and>
      parse_records report = {}" by blast
  from f example_records n c c0 fl r show ?thesis by (intro conjI) assumption+
qed

text \<open>
  A header of the first second of 1970, and a timestamp file that holds 0.
\<close>

theorem epoch_zero_is_absent_witness:
  "parse_http_date (Some (str_of ''Thu, 01 Jan 1970 00:00:00 GMT'')) = Inr (Some 0) \<and>
   fst (check_last_modified
     (example_env (Inr (Some (str_of ''Thu, 01 Jan 1970 00:00:00 GMT''))) (Inr example_content))
     (example_world [(LAST_MODIFIED_FILE, str_of ''0'')])) = Inr None \<and>
   main (example_env (Inr (Some (str_of ''Thu, 01 Jan 1970 00:00:00 GMT'')))
       (Inr example_content)) (example_world [(LAST_MODIFIED_FILE, str_of ''0'')])
     = (No_timestamp, log_action Http_head (example_world [(LAST_MODIFIED_FILE, str_of ''0'')])) \<and>
   load_last_modified (example_world [(LAST_MODIFIED_FILE, str_of ''0'')]) = Inr (Some 0) \<and>
   fst (main (example_env (Inr (Some (str_of ''Thu, 01 Jan 1970 00:00:00 GMT'')))
       (Inr example_content)) (example_world [(LAST_MODIFIED_FILE, str_of ''0'')]))
     \<noteq> Unchanged \<and>
   fst (main (example_env (Inr (Some example_header)) (Inr example_content))
     (example_world [(LAST_MODIFIED_FILE, str_of ''0'')])) \<noteq> Unchanged"
proof -
  let ?h = "str_of ''Thu, 01 Jan 1970 00:00:00 GMT''"
  let ?W = "example_world [(LAST_MODIFIED_FILE, str_of ''0'')]"
  let ?F = "example_env (Inr (Some ?h)) (Inr example_content)"
  let ?E = "example_env (Inr (Some example_header)) (Inr example_content)"
  have p: "parse_http_date (Some ?h) = Inr (Some 0)" by (rule epoch_zero_parse)
  have a: "head_response ?F = Inr (Some ?h) \<and> parse_http_date (Some ?h) = Inr (Some 0)"
    by (simp add: example_env_simps p)
  have l: "load_last_modified ?W = Inr (Some 0)" by (rule example_load(4))
  note t0 = epoch_zero_is_absent [of ?F ?h ?W "Some 0"]
  note t1 = epoch_zero_is_absent [of ?E _ ?W]
  from t0 a have 1: "fst (check_last_modified ?F ?W) = Inr None" by blast
  from t0 a l have 2: "main ?F ?W = (No_timestamp, log_action Http_head ?W)" by blast
  from t0 l have 3: "fst (main ?F ?W) \<noteq> Unchanged" by blast
  from t1 l have 4: "fst (main ?E ?W) \<noteq> Unchanged" by blast
  from p 1 2 l 3 4 show ?thesis by (intro conjI) assumption+
qed

lemma example_sorted:
  "str_of ''a.example'' \<noteq> str_of ''b.example''"
  "sorted [str_of ''a.example'', str_of ''b.example'']"
  "distinct [str_of ''a.example'', str_of ''b.example'']"
  by (simp_all add: str_of_def)

text \<open>
  The report of two records, which are written in sorted order, and the report of none.
\<close>

theorem save_new_records_report_format_witness:
  "finite {str_of ''b.example'', str_of ''a.example''} \<and>
   - 62135596800 \<le> (1735689600::int) \<and> (1735689600::int) \<le> 253402300799 \<and>
   (\<exists>header.
      save_new_records {str_of ''b.example'', str_of ''a.example''} (Some 1735689600)
        (example_env (Inr None) (Inr example_content)) (example_world [])
      = (Inr (), write_text OUTPUT_FILE
          (concat (map (\<lambda>l. l @ [10]) header) @ [10] @
           concat (map (\<lambda>r. r @ [10]) [str_of ''a.example'', str_of ''b.example'']))
          (example_world [])) \<and>
      str_of ''# Blocklist Last-Modified: '' @ example_header \<in> set header \<and>
      str_of ''# Blocklist Last-Modified (epoch): '' @ str_int 1735689600 \<in> set header \<and>
      str_of ''# Total new records: '' @ str_int 2 \<in> set header) \<and>
   (\<exists>header.
      save_new_records {} None (example_env (Inr None) (Inr example_content)) (example_world [])
      = (Inr (), write_text OUTPUT_FILE
          (concat (map (\<lambda>l. l @ [10]) header) @ [10] @
           str_of ''# No new records detected in the last check'' @ [10])
          (example_world [])) \<and>
      str_of ''# Blocklist Last-Modified: '' @ str_of ''Unknown'' \<in> set header \<and>
      str_of ''# Blocklist Last-Modified (epoch): '' @ str_of ''None'' \<in> set header \<and>
      str_of ''# Total new records: '' @ str_int 0 \<in> set header)"
proof -
  let ?R = "{str_of ''b.example'', str_of ''a.example''}"
  let ?E = "example_env (Inr None) (Inr example_content)"
  let ?W = "example_world []"
  let ?xs = "[str_of ''a.example'', str_of ''b.example'']"
  have fin: "finite ?R" by simp
  have b1: "- 62135596800 \<le> (1735689600::int)" by simp
  have b2: "(1735689600::int) \<le> 253402300799" by simp
  have ts: "Some (1735689600::int) = None \<or>
      (\<exists>t. Some (1735689600::int) = Some t \<and> - 62135596800 \<le> t \<and> t \<le> 253402300799)"
    by simp
  have ne: "?R \<noteq> {}" by simp
  have cd: "card ?R = 2" using example_sorted(1) by simp
  have st: "set ?xs = ?R" by auto
  from save_new_records_report_format [OF fin ts, of ?E ?W]
  obtain header body http where
    s: "save_new_records ?R (Some 1735689600) ?E ?W =
       (Inr (), write_text OUTPUT_FILE (concat (map (\<lambda>l. l @ [10]) header) @ [10] @ body) ?W)"
    and h1: "str_of ''# Blocklist Last-Modified: '' @ http \<in> set header"
    and h2: "(case Some (1735689600::int) of
        None \<Rightarrow> http = str_of ''Unknown''
      | Some t \<Rightarrow> if t = 0 then http = str_of ''Unknown'' else epoch_to_http_date t = Inr http)"
    and h3: "str_of ''# Blocklist Last-Modified (epoch): '' @ format_epoch (Some 1735689600)
        \<in> set header"
    and h4: "str_of ''# Total new records: '' @ str_int (int (card ?R)) \<in> set header"
    and h5: "?R \<noteq> {} \<longrightarrow>
        (\<exists>rs. body = concat (map (\<lambda>r. r @ [10]) rs) \<and> sorted rs \<and> distinct rs \<and>
              set rs = ?R)"
    by blast
  from h2 have http: "http = example_header" by (simp add: example_epoch)
  from h5 ne obtain rs where rs: "body = concat (map (\<lambda>r. r @ [10]) rs)" "sorted rs"
    "distinct rs" "set rs = ?R" by blast
  have "rs = ?xs"
    using rs(2) rs(3) example_sorted(2) example_sorted(3)
  proof (rule sorted_distinct_set_unique)
    show "set rs = set ?xs" using rs(4) st by simp
  qed
  with rs(1) have body: "body = concat (map (\<lambda>r. r @ [10]) ?xs)" by simp
  have A: "\<exists>header.
      save_new_records ?R (Some 1735689600) ?E ?W
      = (Inr (), write_text OUTPUT_FILE
          (concat (map (\<lambda>l. l @ [10]) header) @ [10] @ concat (map (\<lambda>r. r @ [10]) ?xs)) ?W) \<and>
      str_of ''# Blocklist Last-Modified: '' @ example_header \<in> set header \<and>
      str_of ''# Blocklist Last-Modified (epoch): '' @ str_int 1735689600 \<in> set header \<and>
      str_of ''# Total new records: '' @ str_int 2 \<in> set header"
  proof (intro exI conjI)
    show "save_new_records ?R (Some 1735689600) ?E ?W
      = (Inr (), write_text OUTPUT_FILE
          (concat (map (\<lambda>l. l @ [10]) header) @ [10] @ concat (map (\<lambda>r. r @ [10]) ?xs)) ?W)"
      using s body by simp
    show "str_of ''# Blocklist Last-Modified: '' @ example_header \<in> set header"
      using h1 http by simp
    show "str_of ''# Blocklist Last-Modified (epoch): '' @ str_int 1735689600 \<in> set header"
      using h3 by (simp add: format_epoch_def)
    show "str_of ''# Total new records: '' @ str_int 2 \<in> set header"
      using h4 cd by simp
  qed
  have fin0: "finite ({} :: pystr set)" by simp
  have ts0: "(None :: int option) = None \<or>
      (\<exists>t. (None :: int option) = Some t \<and> - 62135596800 \<le> t \<and> t \<le> 253402300799)"
    by simp
  from save_new_records_report_format [OF fin0 ts0, of ?E ?W]
  obtain header0 body0 http0 where
    s0: "save_new_records {} None ?E ?W =
       (Inr (), write_text OUTPUT_FILE (concat (map (\<lambda>l. l @ [10]) header0) @ [10] @ body0) ?W)"
    and g1: "str_of ''# Blocklist Last-Modified: '' @ http0 \<in> set header0"
    and g2: "(case (None :: int option) of
        None \<Rightarrow> http0 = str_of ''Unknown''
      | Some t \<Rightarrow> if t = 0 then http0 = str_of ''Unknown'' else epoch_to_http_date t = Inr http0)"
    and g3: "str_of ''# Blocklist Last-Modified (epoch): '' @ format_epoch None \<in> set header0"
    and g4: "str_of ''# Total new records: '' @ str_int (int (card ({} :: pystr set)))
        \<in> set header0"
    and g5: "({} :: pystr set) = {} \<longrightarrow>
        body0 = str_of ''# No new records detected in the last check'' @ [10] \<and>
        startswith body0 (str_of ''#'')"
    by blast
  from g2 have http0: "http0 = str_of ''Unknown''" by simp
  from g5 have body0: "body0 = str_of ''# No new records detected in the last check'' @ [10]"
    by simp
  have B: "\<exists>header.
      save_new_records {} None ?E ?W
      = (Inr (), write_text OUTPUT_FILE
          (concat (map (\<lambda>l. l @ [10]) header) @ [10] @
           str_of ''# No new records detected in the last check'' @ [10]) ?W) \<and>
      str_of ''# Blocklist Last-Modified: '' @ str_of ''Unknown'' \<in> set header \<and>
      str_of ''# Blocklist Last-Modified (epoch): '' @ str_of ''None'' \<in> set header \<and>
      str_of ''# Total new records: '' @ str_int 0 \<in> set header"
  proof (intro exI conjI)
    show "save_new_records {} None ?E ?W
      = (Inr (), write_text OUTPUT_FILE
          (concat (map (\<lambda>l. l @ [10]) header0) @ [10] @
           str_of ''# No new records detected in the last check'' @ [10]) ?W)"
      using s0 body0 by simp
    show "str_of ''# Blocklist Last-Modified: '' @ str_of ''Unknown'' \<in> set header0"
      using g1 http0 by simp
    show "str_of ''# Blocklist Last-Modified (epoch): '' @ str_of ''None'' \<in> set header0"
      using g3 by (simp add: format_epoch_def)
    show "str_of ''# Total new records: '' @ str_int 0 \<in> set header0"
      using g4 by simp
  qed
  from fin b1 b2 A B show ?thesis by (intro conjI) assumption+
qed

end
